theory Spec2Isabelle
  imports Main
begin

section \<open>The attribute-preserving tree of the XML tokenizer\<close>

text \<open>
  The parser never sees XML text: it reads the tree that the external tokenizer
  (fast-xml-parser, configured with \<open>ignoreAttributes: false\<close>,
  \<open>attributeNamePrefix: ''\<close>, \<open>parseAttributeValue: false\<close>) returns.  An XML
  element with attributes or children is an object whose keys are the attribute names
  and the child tag names; repeated sibling tags are an array under one key; an
  element holding only text is that text (a string, or the number or boolean the
  tokenizer reads the text as); an empty element is the empty string.

  \<open>Obj\<close> is an association list in key order.  A JavaScript object has every key once;
  a lookup takes the first entry.
\<close>

datatype node =
    Text string
  | Num int
  | Bool bool
  | Obj "(string \<times> node) list"
  | Arr "node list"

datatype error = TypeError | TokenizerError

text \<open>JavaScript truthiness (\<open>if (x)\<close>, \<open>!x\<close>, \<open>x || y\<close>) of a tree value.\<close>

fun truthy :: "node \<Rightarrow> bool" where
  "truthy (Text s) = (s \<noteq> [])"
| "truthy (Num n) = (n \<noteq> 0)"
| "truthy (Bool b) = b"
| "truthy (Obj kvs) = True"
| "truthy (Arr xs) = True"

text \<open>Truthiness of an optional string (\<open>undefined\<close> and \<open>""\<close> are falsy).\<close>

fun truthyS :: "string option \<Rightarrow> bool" where
  "truthyS None = False"
| "truthyS (Some s) = (s \<noteq> [])"

text \<open>
  Property access \<open>x.key\<close> for the keys the parser reads as attributes (\<open>name\<close>,
  \<open>type\<close>, \<open>ref\<close>, \<open>minOccurs\<close>, \<open>maxOccurs\<close>, \<open>nillable\<close>, \<open>use\<close>, \<open>default\<close>,
  \<open>fixed\<close>, \<open>base\<close>, \<open>value\<close>, \<open>targetNamespace\<close>, \<open>elementFormDefault\<close>).  On a
  string, a number, a boolean or an array these are \<open>undefined\<close>.  The tokenizer keeps
  attribute values as strings, and XSD has no child element with one of these names,
  so the value is read at its declared type \<open>string\<close>: a non-text value under such a
  key is outside the model and read as absent.
\<close>

fun getProp :: "node \<Rightarrow> string \<Rightarrow> node option" where
  "getProp (Obj kvs) k = map_of kvs k"
| "getProp _ k = None"

definition attr :: "node \<Rightarrow> string \<Rightarrow> string option" where
  "attr n k = (case getProp n k of Some (Text s) \<Rightarrow> Some s | _ \<Rightarrow> None)"

section \<open>String helpers of the JavaScript standard library\<close>

definition startsWith :: "string \<Rightarrow> string \<Rightarrow> bool" where
  "startsWith s p = (take (length p) s = p)"

definition endsWith :: "string \<Rightarrow> string \<Rightarrow> bool" where
  "endsWith s p = (length p \<le> length s \<and> drop (length s - length p) s = p)"

fun includes_str :: "string \<Rightarrow> string \<Rightarrow> bool" where
  "includes_str [] p = (p = [])"
| "includes_str (c # cs) p = (startsWith (c # cs) p \<or> includes_str cs p)"

text \<open>\<open>s.indexOf(":")\<close>: the position of the first colon, \<open>None\<close> for \<open>-1\<close>.\<close>

fun indexOfColon :: "string \<Rightarrow> nat option" where
  "indexOfColon [] = None"
| "indexOfColon (c # cs) =
     (if c = CHR '':'' then Some 0
      else (case indexOfColon cs of None \<Rightarrow> None | Some i \<Rightarrow> Some (Suc i)))"

text \<open>
  \<open>key.split(/\/?@_xmlns:?/)\<close>.  The pattern matches at a position when the text there is
  \<open>/@_xmlns\<close> or \<open>@_xmlns\<close>, followed by an optional colon (both optional parts are
  greedy); \<open>matchXmlns\<close> gives the text after the match.
\<close>

definition matchXmlns :: "string \<Rightarrow> string option" where
  "matchXmlns s =
     (let afterName =
        (if startsWith s ''/@_xmlns'' then Some (drop 8 s)
         else if startsWith s ''@_xmlns'' then Some (drop 7 s)
         else None)
      in case afterName of
           None \<Rightarrow> None
         | Some r \<Rightarrow> Some (if startsWith r '':'' then drop 1 r else r))"

lemma matchXmlns_shorter: "matchXmlns s = Some r \<Longrightarrow> length r < length s"
  by (cases s) (auto simp: matchXmlns_def startsWith_def Let_def split: if_splits)

function splitXmlns :: "string \<Rightarrow> string \<Rightarrow> string list" where
  "splitXmlns acc [] = [rev acc]"
| "splitXmlns acc (c # cs) =
     (case matchXmlns (c # cs) of
        Some r \<Rightarrow> rev acc # splitXmlns [] r
      | None \<Rightarrow> splitXmlns (c # acc) cs)"
  by pat_completeness auto
termination
  by (relation "measure (\<lambda>(acc, s). length s)") (auto dest: matchXmlns_shorter)

text \<open>\<open>xs[1]\<close> of a JavaScript array: \<open>undefined\<close> when there is no second entry.\<close>

definition second :: "'a list \<Rightarrow> 'a option" where
  "second xs = (case xs of a # b # _ \<Rightarrow> Some b | _ \<Rightarrow> None)"

section \<open>Namespace resolver (\<open>namespace.ts\<close>)\<close>

definition XSD_NAMESPACE_URI :: string where
  "XSD_NAMESPACE_URI = ''http://www.w3.org/2001/XMLSchema''"

text \<open>
  \<open>namespaceMappings\<close> is a JavaScript \<open>Map\<close>.  Its key is the prefix, which is
  \<open>undefined\<close> (\<open>None\<close>) when the split has no second piece; its value is whatever the
  root node holds under the key.
\<close>

record NamespaceContext =
  namespaceMappings :: "string option \<rightharpoonup> node"
  ctx_xsdPrefix :: "string option"

definition isNamespaceKey :: "string \<Rightarrow> bool" where
  "isNamespaceKey key =
     (startsWith key ''xmlns:'' \<or> startsWith key ''@_xmlns:'' \<or>
      includes_str key ''/xmlns:'' \<or> includes_str key ''/@_xmlns:'')"

definition prefixOfKey :: "string \<Rightarrow> string option" where
  "prefixOfKey key =
     (if startsWith key ''@_xmlns:'' then Some (drop 8 key)
      else if includes_str key ''/xmlns:'' \<or> includes_str key ''/@_xmlns:''
        then second (splitXmlns [] key)
      else Some (drop 6 key))"

text \<open>One turn of the loop \<open>for (const key in element)\<close>, with \<open>uri = element[key]\<close>.\<close>

definition namespaceStep :: "string \<times> node \<Rightarrow> NamespaceContext \<Rightarrow> NamespaceContext" where
  "namespaceStep kv ctx =
     (let key = fst kv; uri = snd kv in
      if key = ''xmlns'' then
        ctx\<lparr>namespaceMappings := (namespaceMappings ctx)(Some [] \<mapsto> uri)\<rparr>
      else if isNamespaceKey key then
        (let prefix = prefixOfKey key;
             ctx1 = ctx\<lparr>namespaceMappings := (namespaceMappings ctx)(prefix \<mapsto> uri)\<rparr>
         in if uri = Text XSD_NAMESPACE_URI then ctx1\<lparr>ctx_xsdPrefix := prefix\<rparr> else ctx1)
      else ctx)"

text \<open>
  \<open>extractNamespaces\<close>.  A falsy root returns the empty context at once.  The keys a
  \<open>for ... in\<close> loop finds on a string or an array are its indices, on a number or a
  boolean there are none: no index is a namespace key, so the loop changes nothing
  there.
\<close>

fun extractNamespaces :: "node \<Rightarrow> NamespaceContext" where
  "extractNamespaces (Obj kvs) =
     fold namespaceStep kvs \<lparr>namespaceMappings = Map.empty, ctx_xsdPrefix = None\<rparr>"
| "extractNamespaces _ = \<lparr>namespaceMappings = Map.empty, ctx_xsdPrefix = None\<rparr>"

definition stripNamespace :: "string \<Rightarrow> string" where
  "stripNamespace typeName =
     (if typeName = [] then []
      else (case indexOfColon typeName of
              Some colonIndex \<Rightarrow> drop (colonIndex + 1) typeName
            | None \<Rightarrow> typeName))"

text \<open>
  \<open>getTypeValue\<close>.  A falsy container gives \<open>undefined\<close>.  On a truthy string, number
  or boolean the operator \<open>in\<close> throws a \<open>TypeError\<close>.  On an array \<open>in\<close> finds the
  indices and the properties of arrays; of the names the parser asks for only
  \<open>length\<close> is one, and its value is the number of entries.
\<close>

fun getTypeValue :: "node \<Rightarrow> string \<Rightarrow> string option \<Rightarrow> error + node option" where
  "getTypeValue (Obj kvs) elementName xsdPrefix =
     (case map_of kvs elementName of
        Some v \<Rightarrow> Inr (Some v)
      | None \<Rightarrow>
          (if truthyS xsdPrefix
           then Inr (map_of kvs (the xsdPrefix @ '':'' @ elementName))
           else Inr None))"
| "getTypeValue (Arr xs) elementName xsdPrefix =
     (if elementName = ''length'' then Inr (Some (Num (int (length xs)))) else Inr None)"
| "getTypeValue prim elementName xsdPrefix =
     (if truthy prim then Inl TypeError else Inr None)"

definition getAsArray :: "node \<Rightarrow> string \<Rightarrow> string option \<Rightarrow> error + node list" where
  "getAsArray container elementName xsdPrefix =
     (case getTypeValue container elementName xsdPrefix of
        Inl e \<Rightarrow> Inl e
      | Inr (Some (Arr xs)) \<Rightarrow> Inr xs
      | Inr (Some v) \<Rightarrow> Inr [v]
      | Inr None \<Rightarrow> Inr [])"

section \<open>The schema model (\<open>types.ts\<close>)\<close>

text \<open>
  A JavaScript number read by \<open>parseInt\<close>: \<open>NaN\<close> or an integer.  The value read by
  \<open>parseFloat\<close> is a double; the model keeps the text it is read from.
\<close>

datatype number = NaN | Number int

datatype jsfloat = ParseFloat string

datatype maxOccurs = Unbounded | MaxNumber number

text \<open>
  An optional field (\<open>name?: string\<close>) is an \<open>option\<close>; \<open>None\<close> is \<open>undefined\<close> (or
  \<open>null\<close>).  \<open>XsdElement.name\<close> and \<open>XsdExtension.base\<close> are declared \<open>string\<close>, but
  the parser stores \<open>undefined\<close> there when the attribute is missing, so they are
  options too.  An entry of \<open>enumerations\<close> is \<open>e.value || e\<close>: the text of the value
  attribute, or the enumeration node itself.
\<close>

record XsdRestriction =
  r_base :: string
  r_enumerations :: "node list option"
  r_minLength :: "number option"
  r_maxLength :: "number option"
  r_pattern :: "string option"
  r_minInclusive :: "jsfloat option"
  r_maxInclusive :: "jsfloat option"
  r_minExclusive :: "jsfloat option"
  r_maxExclusive :: "jsfloat option"
  r_totalDigits :: "number option"
  r_fractionDigits :: "number option"
  r_length :: "number option"
  r_whiteSpace :: "string option"

record XsdSimpleType =
  st_name :: "string option"
  st_restriction :: XsdRestriction

record XsdAttribute =
  at_name :: "string option"
  at_type :: "string option"
  at_use :: "string option"
  at_default :: "string option"
  at_fixed :: "string option"
  at_simpleType :: "XsdSimpleType option"

datatype XsdElement = XsdElement
    (el_name: "string option")
    (el_type: "string option")
    (el_complexType: "XsdComplexType option")
    (el_simpleType: "XsdSimpleType option")
    (el_attributes: "XsdAttribute list")
    (el_minOccurs: "number option")
    (el_maxOccurs: "maxOccurs option")
    (el_isRef: "bool option")
    (el_ref: "string option")
    (el_nillable: "bool option")
and XsdComplexType = XsdComplexType
    (ct_name: "string option")
    (ct_sequence: "XsdElement list option")
    (ct_choice: "XsdElement list option")
    (ct_all: "XsdElement list option")
    (ct_attributes: "XsdAttribute list")
    (ct_extension: "XsdExtension option")
    (ct_content: "XsdElement list")
and XsdExtension = XsdExtension
    (ext_base: "string option")
    (ext_sequence: "XsdElement list option")
    (ext_attributes: "XsdAttribute list")

record XsdSchema =
  targetNamespace :: "string option"
  elementFormDefault :: "string option"
  elements :: "XsdElement list"
  complexTypes :: "XsdComplexType list"
  simpleTypes :: "XsdSimpleType list"

section \<open>\<open>parseInt\<close>\<close>

text \<open>
  \<open>parseInt(s)\<close> with no radix: leading white space is skipped, a sign is read, a
  prefix \<open>0x\<close> or \<open>0X\<close> selects base 16, and the longest run of digits is the value;
  with no digit the result is \<open>NaN\<close>.  The integers are unbounded here (a double is
  exact up to \<open>2^53\<close>), and only the ASCII white space is skipped.
\<close>

definition isWhiteSpace :: "char \<Rightarrow> bool" where
  "isWhiteSpace c = (of_char c \<in> {9, 10, 11, 12, 13, 32 :: nat})"

definition digitValue :: "nat \<Rightarrow> char \<Rightarrow> nat option" where
  "digitValue radix c =
     (let n = (of_char c :: nat);
          v = (if 48 \<le> n \<and> n \<le> 57 then Some (n - 48)
               else if 97 \<le> n \<and> n \<le> 122 then Some (n - 87)
               else if 65 \<le> n \<and> n \<le> 90 then Some (n - 55)
               else None)
      in case v of Some d \<Rightarrow> (if d < radix then Some d else None) | None \<Rightarrow> None)"

fun readDigits :: "nat \<Rightarrow> string \<Rightarrow> nat option \<Rightarrow> nat option" where
  "readDigits radix [] acc = acc"
| "readDigits radix (c # cs) acc =
     (case digitValue radix c of
        None \<Rightarrow> acc
      | Some d \<Rightarrow> readDigits radix cs
                   (Some ((case acc of None \<Rightarrow> 0 | Some a \<Rightarrow> a) * radix + d)))"

definition parseInt :: "string \<Rightarrow> number" where
  "parseInt s =
     (let s1 = dropWhile isWhiteSpace s;
          negative = startsWith s1 ''-'';
          s2 = (if startsWith s1 ''-'' \<or> startsWith s1 ''+'' then drop 1 s1 else s1);
          hex = (startsWith s2 ''0x'' \<or> startsWith s2 ''0X'');
          digits = (if hex then readDigits 16 (drop 2 s2) None else readDigits 10 s2 None)
      in case digits of
           None \<Rightarrow> NaN
         | Some v \<Rightarrow> Number (if negative then - int v else int v))"

section \<open>Results that may throw\<close>

text \<open>
  A function that can throw returns \<open>error + 'a\<close>; \<open>andThen m f\<close> runs \<open>f\<close> on the value
  of \<open>m\<close> unless \<open>m\<close> threw.
\<close>

definition andThen :: "error + 'a \<Rightarrow> ('a \<Rightarrow> error + 'b) \<Rightarrow> error + 'b" where
  "andThen m f = (case m of Inl e \<Rightarrow> Inl e | Inr x \<Rightarrow> f x)"

lemma andThen_cong [fundef_cong]:
  "m = m' \<Longrightarrow> (\<And>x. m' = Inr x \<Longrightarrow> f x = f' x) \<Longrightarrow> andThen m f = andThen m' f'"
  by (auto simp: andThen_def split: sum.splits)

lemma andThen_simps [simp]:
  "andThen (Inl e) f = Inl e"
  "andThen (Inr x) f = f x"
  by (simp_all add: andThen_def)

section \<open>Facet, simple type and attribute parser (\<open>xsd-parser.ts\<close>)\<close>

text \<open>\<open>parseFacetValue\<close>; the caller's \<open>parser\<close> is applied to the text of \<open>value\<close>.\<close>

definition parseFacetValue ::
  "node \<Rightarrow> string \<Rightarrow> (string \<Rightarrow> 'a) \<Rightarrow> string option \<Rightarrow> error + 'a option" where
  "parseFacetValue restriction facetName parser xsdPrefix =
     andThen (getTypeValue restriction facetName xsdPrefix) (\<lambda>facet.
       case facet of
         None \<Rightarrow> Inr None
       | Some f \<Rightarrow>
           (if truthy f then Inr (map_option parser (attr f ''value'')) else Inr None))"

definition enumerationValue :: "node \<Rightarrow> node" where
  "enumerationValue e =
     (case attr e ''value'' of
        Some v \<Rightarrow> (if v \<noteq> [] then Text v else e)
      | None \<Rightarrow> e)"

definition parseEnumerations :: "node \<Rightarrow> string option \<Rightarrow> error + node list option" where
  "parseEnumerations restriction xsdPrefix =
     andThen (getAsArray restriction ''enumeration'' xsdPrefix) (\<lambda>enumerationArray.
       if length enumerationArray = 0 then Inr None
       else Inr (Some (map enumerationValue enumerationArray)))"

definition parseSimpleType ::
  "node \<Rightarrow> string option \<Rightarrow> string option \<Rightarrow> error + XsdSimpleType option" where
  "parseSimpleType st xsdPrefix name =
     (if \<not> truthy st then Inr None
      else
        andThen (getTypeValue st ''restriction'' xsdPrefix) (\<lambda>found.
        let restriction = (case found of
                             Some r \<Rightarrow> (if truthy r then r else Obj [])
                           | None \<Rightarrow> Obj []);
            baseText = (case attr restriction ''base'' of
                          Some b \<Rightarrow> (if b \<noteq> [] then b else [])
                        | None \<Rightarrow> [])
        in
        andThen (parseEnumerations restriction xsdPrefix) (\<lambda>enums.
        andThen (parseFacetValue restriction ''minLength'' parseInt xsdPrefix) (\<lambda>minLen.
        andThen (parseFacetValue restriction ''maxLength'' parseInt xsdPrefix) (\<lambda>maxLen.
        andThen (parseFacetValue restriction ''pattern'' (\<lambda>v. v) xsdPrefix) (\<lambda>pat.
        andThen (parseFacetValue restriction ''minInclusive'' ParseFloat xsdPrefix) (\<lambda>minInc.
        andThen (parseFacetValue restriction ''maxInclusive'' ParseFloat xsdPrefix) (\<lambda>maxInc.
        andThen (parseFacetValue restriction ''minExclusive'' ParseFloat xsdPrefix) (\<lambda>minExc.
        andThen (parseFacetValue restriction ''maxExclusive'' ParseFloat xsdPrefix) (\<lambda>maxExc.
        andThen (parseFacetValue restriction ''totalDigits'' parseInt xsdPrefix) (\<lambda>totDig.
        andThen (parseFacetValue restriction ''fractionDigits'' parseInt xsdPrefix) (\<lambda>fracDig.
        andThen (parseFacetValue restriction ''length'' parseInt xsdPrefix) (\<lambda>len.
        andThen (parseFacetValue restriction ''whiteSpace'' (\<lambda>v. v) xsdPrefix) (\<lambda>ws.
          Inr (Some \<lparr>st_name = name,
                     st_restriction = \<lparr>r_base = stripNamespace baseText,
                       r_enumerations = enums, r_minLength = minLen, r_maxLength = maxLen,
                       r_pattern = pat, r_minInclusive = minInc, r_maxInclusive = maxInc,
                       r_minExclusive = minExc, r_maxExclusive = maxExc,
                       r_totalDigits = totDig, r_fractionDigits = fracDig,
                       r_length = len, r_whiteSpace = ws\<rparr>\<rparr>)))))))))))))))"

text \<open>The body of the loop of \<open>parseAttributes\<close>: one attribute node.\<close>

definition parseAttribute :: "node \<Rightarrow> string option \<Rightarrow> error + XsdAttribute" where
  "parseAttribute a xsdPrefix =
     andThen (getTypeValue a ''simpleType'' xsdPrefix) (\<lambda>simpleTypeValue.
     andThen (case simpleTypeValue of
                Some v \<Rightarrow> (if truthy v then parseSimpleType v xsdPrefix (attr a ''name'')
                           else Inr None)
              | None \<Rightarrow> Inr None) (\<lambda>simpleType.
       Inr \<lparr>at_name = attr a ''name'',
            at_type = attr a ''type'',
            at_use = (if truthyS (attr a ''use'') then attr a ''use'' else Some ''optional''),
            at_default = attr a ''default'',
            at_fixed = attr a ''fixed'',
            at_simpleType = simpleType\<rparr>))"

fun parseAttributeLoop :: "node list \<Rightarrow> string option \<Rightarrow> error + XsdAttribute list" where
  "parseAttributeLoop [] xsdPrefix = Inr []"
| "parseAttributeLoop (a # as) xsdPrefix =
     andThen (parseAttribute a xsdPrefix) (\<lambda>x.
     andThen (parseAttributeLoop as xsdPrefix) (\<lambda>xs. Inr (x # xs)))"

definition parseAttributes :: "node \<Rightarrow> string option \<Rightarrow> error + XsdAttribute list" where
  "parseAttributes parent xsdPrefix =
     andThen (getAsArray parent ''attribute'' xsdPrefix) (\<lambda>attrArray.
       parseAttributeLoop attrArray xsdPrefix)"

section \<open>Element and complex type parser (\<open>xsd-parser.ts\<close>)\<close>

text \<open>Assignments to the fields of the complex type under construction.\<close>

definition set_sequence :: "XsdElement list \<Rightarrow> XsdComplexType \<Rightarrow> XsdComplexType" where
  "set_sequence v ct = XsdComplexType (ct_name ct) (Some v) (ct_choice ct) (ct_all ct)
     (ct_attributes ct) (ct_extension ct) (ct_content ct)"

definition set_choice :: "XsdElement list \<Rightarrow> XsdComplexType \<Rightarrow> XsdComplexType" where
  "set_choice v ct = XsdComplexType (ct_name ct) (ct_sequence ct) (Some v) (ct_all ct)
     (ct_attributes ct) (ct_extension ct) (ct_content ct)"

definition set_all :: "XsdElement list \<Rightarrow> XsdComplexType \<Rightarrow> XsdComplexType" where
  "set_all v ct = XsdComplexType (ct_name ct) (ct_sequence ct) (ct_choice ct) (Some v)
     (ct_attributes ct) (ct_extension ct) (ct_content ct)"

definition set_extension :: "XsdExtension \<Rightarrow> XsdComplexType \<Rightarrow> XsdComplexType" where
  "set_extension v ct = XsdComplexType (ct_name ct) (ct_sequence ct) (ct_choice ct) (ct_all ct)
     (ct_attributes ct) (Some v) (ct_content ct)"

definition push_content :: "XsdElement list \<Rightarrow> XsdComplexType \<Rightarrow> XsdComplexType" where
  "push_content v ct = XsdComplexType (ct_name ct) (ct_sequence ct) (ct_choice ct) (ct_all ct)
     (ct_attributes ct) (ct_extension ct) (ct_content ct @ v)"

definition push_attributes :: "XsdAttribute list \<Rightarrow> XsdComplexType \<Rightarrow> XsdComplexType" where
  "push_attributes v ct = XsdComplexType (ct_name ct) (ct_sequence ct) (ct_choice ct) (ct_all ct)
     (ct_attributes ct @ v) (ct_extension ct) (ct_content ct)"

text \<open>
  \<open>Object.keys(complexType).length\<close>: the object literal of \<open>parseComplexType\<close> has the
  keys \<open>name\<close>, \<open>attributes\<close> and \<open>content\<close>; \<open>sequence\<close>, \<open>choice\<close>, \<open>all\<close> and
  \<open>extension\<close> are keys once they are assigned.
\<close>

definition objectKeys :: "XsdComplexType \<Rightarrow> nat" where
  "objectKeys ct = 3 + (if ct_sequence ct = None then 0 else 1)
                     + (if ct_choice ct = None then 0 else 1)
                     + (if ct_all ct = None then 0 else 1)
                     + (if ct_extension ct = None then 0 else 1)"

text \<open>
  The inner loop of \<open>parseNestedElements\<close> over the elements of one nested choice:
  the state is the pair of the local \<open>elements\<close> and the parent complex type.
\<close>

definition mergeChoiceElement ::
  "XsdElement \<Rightarrow> XsdElement list \<times> XsdComplexType \<Rightarrow> XsdElement list \<times> XsdComplexType" where
  "mergeChoiceElement choiceElement st =
     (let elems = fst st; parent = snd st;
          elems1 = (case el_complexType choiceElement of
                      Some c \<Rightarrow> (if objectKeys c > 1 then elems @ [choiceElement] else elems)
                    | None \<Rightarrow> elems);
          parent1 = (case ct_choice parent of
                       Some ch \<Rightarrow> set_choice (ch @ [choiceElement]) parent
                     | None \<Rightarrow> parent)
      in (elems1, parent1))"

lemma map_of_size:
  "map_of kvs k = Some v \<Longrightarrow> size v \<le> size_list (size_prod (\<lambda>_. 0) size) kvs"
  by (induction kvs) (auto split: if_splits)

lemma getTypeValue_size:
  "getTypeValue c n p = Inr (Some v) \<Longrightarrow> size (v :: node) < size c"
  by (cases c) (auto split: option.splits if_splits dest: map_of_size simp: less_Suc_eq_le)

lemma getAsArray_size:
  "getAsArray c n p = Inr xs \<Longrightarrow> size_list size (xs :: node list) \<le> size c"
  by (auto simp: getAsArray_def split: sum.splits option.splits node.splits
           dest!: getTypeValue_size)

lemma content_size:
  "getTypeValue ct a p = Inr xh \<Longrightarrow> getTypeValue ct b p = Inr xi \<Longrightarrow>
   Some x2 = (case xh of None \<Rightarrow> xi | Some cc \<Rightarrow> if truthy cc then Some cc else xi) \<Longrightarrow>
   size (x2 :: node) < size ct"
  by (auto split: option.splits if_splits dest!: getTypeValue_size)

text \<open>
  The mutually recursive parser.  \<open>parseNestedElements\<close> writes the \<open>choice\<close> field of
  the parent complex type, so the parent is passed in and returned (every call in the
  source passes one).  \<open>parseElementLoop\<close> and \<open>parseChoiceLoop\<close> are its two \<open>for\<close>
  loops.
\<close>

function parseElement :: "node \<Rightarrow> string option \<Rightarrow> error + XsdElement option"
  and parseComplexType ::
    "node \<Rightarrow> string option \<Rightarrow> string option \<Rightarrow> error + XsdComplexType option"
  and parseNestedElements ::
    "node \<Rightarrow> XsdComplexType \<Rightarrow> string option \<Rightarrow> error + (XsdElement list \<times> XsdComplexType)"
  and parseElementLoop :: "node list \<Rightarrow> string option \<Rightarrow> error + XsdElement list"
  and parseChoiceLoop ::
    "node list \<Rightarrow> XsdElement list \<Rightarrow> XsdComplexType \<Rightarrow> string option
       \<Rightarrow> error + (XsdElement list \<times> XsdComplexType)"
where
  "parseElement el xsdPrefix =
     (if \<not> truthy el then Inr None
      else
        andThen (parseAttributes el xsdPrefix) (\<lambda>attributes.
        andThen (getTypeValue el ''complexType'' xsdPrefix) (\<lambda>complexType.
        andThen (case complexType of
                   Some c \<Rightarrow> (if truthy c then parseComplexType c xsdPrefix (attr el ''name'')
                              else Inr None)
                 | None \<Rightarrow> Inr None) (\<lambda>parsedComplexType.
        andThen (getTypeValue el ''simpleType'' xsdPrefix) (\<lambda>simpleType.
        andThen (case simpleType of
                   Some s \<Rightarrow> (if truthy s then parseSimpleType s xsdPrefix (attr el ''name'')
                              else Inr None)
                 | None \<Rightarrow> Inr None) (\<lambda>parsedSimpleType.
          Inr (Some (XsdElement
            (attr el ''name'')
            (if truthyS (attr el ''type'') then Some (stripNamespace (the (attr el ''type'')))
             else None)
            parsedComplexType
            parsedSimpleType
            attributes
            (map_option parseInt (attr el ''minOccurs''))
            (if attr el ''maxOccurs'' = Some ''unbounded'' then Some Unbounded
             else map_option (\<lambda>v. MaxNumber (parseInt v)) (attr el ''maxOccurs''))
            (Some (truthyS (attr el ''ref'')))
            (attr el ''ref'')
            (Some (attr el ''nillable'' = Some ''true''))))))))))"
| "parseComplexType ct xsdPrefix name =
     (if \<not> truthy ct then Inr None
      else
        andThen (parseAttributes ct xsdPrefix) (\<lambda>attributes.
        let complexType0 = XsdComplexType name None None None attributes None [] in
        andThen (getTypeValue ct ''sequence'' xsdPrefix) (\<lambda>sequence.
        andThen (case sequence of
                   Some sq \<Rightarrow>
                     (if truthy sq then
                        andThen (parseNestedElements sq complexType0 xsdPrefix) (\<lambda>(parsedSeq, c).
                          Inr (push_content parsedSeq (set_sequence parsedSeq c)))
                      else Inr complexType0)
                 | None \<Rightarrow> Inr complexType0) (\<lambda>complexType1.
        andThen (getTypeValue ct ''choice'' xsdPrefix) (\<lambda>choice.
        andThen (case choice of
                   Some ch \<Rightarrow>
                     (if truthy ch then
                        andThen (parseNestedElements ch complexType1 xsdPrefix) (\<lambda>(parsedChoice, c).
                          Inr (push_content parsedChoice (set_choice parsedChoice c)))
                      else Inr complexType1)
                 | None \<Rightarrow> Inr complexType1) (\<lambda>complexType2.
        andThen (getTypeValue ct ''all'' xsdPrefix) (\<lambda>all.
        andThen (case all of
                   Some al \<Rightarrow>
                     (if truthy al then
                        andThen (parseNestedElements al complexType2 xsdPrefix) (\<lambda>(parsedAll, c).
                          Inr (push_content parsedAll (set_all parsedAll c)))
                      else Inr complexType2)
                 | None \<Rightarrow> Inr complexType2) (\<lambda>complexType3.
        andThen (getTypeValue ct ''complexContent'' xsdPrefix) (\<lambda>complexContent.
        andThen (getTypeValue ct ''simpleContent'' xsdPrefix) (\<lambda>simpleContent.
        let content = (case complexContent of
                         Some cc \<Rightarrow> (if truthy cc then Some cc else simpleContent)
                       | None \<Rightarrow> simpleContent)
        in
        case content of
          None \<Rightarrow> Inr (Some complexType3)
        | Some cont \<Rightarrow>
            (if \<not> truthy cont then Inr (Some complexType3)
             else
               andThen (getTypeValue cont ''extension'' xsdPrefix) (\<lambda>ext.
               case ext of
                 None \<Rightarrow> Inr (Some complexType3)
               | Some ex \<Rightarrow>
                   (if \<not> truthy ex then Inr (Some complexType3)
                    else
                      andThen (parseAttributes ex xsdPrefix) (\<lambda>extAttributes.
                      andThen (getTypeValue ex ''sequence'' xsdPrefix) (\<lambda>extSequence.
                      let extBase = (if truthyS (attr ex ''base'')
                                     then Some (stripNamespace (the (attr ex ''base'')))
                                     else None)
                      in
                      andThen (case extSequence of
                                 Some es \<Rightarrow>
                                   (if truthy es then
                                      andThen (parseNestedElements es complexType3 xsdPrefix)
                                        (\<lambda>(parsed, c).
                                          Inr (push_content parsed
                                            (set_extension
                                               (XsdExtension extBase (Some parsed) extAttributes) c)))
                                    else Inr (set_extension
                                                (XsdExtension extBase None extAttributes) complexType3))
                               | None \<Rightarrow> Inr (set_extension
                                            (XsdExtension extBase None extAttributes) complexType3))
                        (\<lambda>complexType4.
                          Inr (Some (push_attributes extAttributes complexType4))))))))))))))))))"
| "parseNestedElements container parentComplexType xsdPrefix =
     andThen (getAsArray container ''element'' xsdPrefix) (\<lambda>elementArray.
     andThen (parseElementLoop elementArray xsdPrefix) (\<lambda>elems.
     andThen (getAsArray container ''choice'' xsdPrefix) (\<lambda>choiceArray.
       parseChoiceLoop choiceArray elems parentComplexType xsdPrefix)))"
| "parseElementLoop [] xsdPrefix = Inr []"
| "parseElementLoop (el # els) xsdPrefix =
     andThen (parseElement el xsdPrefix) (\<lambda>element.
     andThen (parseElementLoop els xsdPrefix) (\<lambda>rest.
       Inr (case element of Some e \<Rightarrow> e # rest | None \<Rightarrow> rest)))"
| "parseChoiceLoop [] elems parentComplexType xsdPrefix = Inr (elems, parentComplexType)"
| "parseChoiceLoop (ch # chs) elems parentComplexType xsdPrefix =
     (let parent1 = (if ct_choice parentComplexType = None
                     then set_choice [] parentComplexType else parentComplexType)
      in andThen (parseNestedElements ch parent1 xsdPrefix) (\<lambda>(choiceElements, parent2).
           case fold mergeChoiceElement choiceElements (elems, parent2) of
             (elems1, parent3) \<Rightarrow> parseChoiceLoop chs elems1 parent3 xsdPrefix))"
  by pat_completeness auto
termination
  apply (relation "measure (\<lambda>x. case x of
      Inl (Inl (el, p)) \<Rightarrow> 2 * size el + 1
    | Inl (Inr (ct, p, n)) \<Rightarrow> 2 * size ct + 1
    | Inr (Inl (c, pc, p)) \<Rightarrow> 2 * size c + 1
    | Inr (Inr (Inl (els, p))) \<Rightarrow> 2 * size_list size els
    | Inr (Inr (Inr (chs, es, pc, p))) \<Rightarrow> 2 * size_list size chs)")
  apply (auto dest!: getTypeValue_size getAsArray_size dest: content_size)
  done

text \<open>The equations of the parser are unfolded only where a proof asks for them.\<close>

declare parseElement.simps [simp del] parseComplexType.simps [simp del]
  parseNestedElements.simps [simp del] parseElementLoop.simps [simp del]
  parseChoiceLoop.simps [simp del]

section \<open>Schema model builder (\<open>xsd-parser.ts\<close>)\<close>

fun parseComplexTypeLoop :: "node list \<Rightarrow> string option \<Rightarrow> error + XsdComplexType list" where
  "parseComplexTypeLoop [] xsdPrefix = Inr []"
| "parseComplexTypeLoop (ct # cts) xsdPrefix =
     andThen (parseComplexType ct xsdPrefix (attr ct ''name'')) (\<lambda>complexType.
     andThen (parseComplexTypeLoop cts xsdPrefix) (\<lambda>rest.
       Inr (case complexType of Some c \<Rightarrow> c # rest | None \<Rightarrow> rest)))"

definition parseComplexTypes :: "node \<Rightarrow> string option \<Rightarrow> error + XsdComplexType list" where
  "parseComplexTypes xsd xsdPrefix =
     andThen (getAsArray xsd ''complexType'' xsdPrefix) (\<lambda>typeArray.
       parseComplexTypeLoop typeArray xsdPrefix)"

fun parseSimpleTypeLoop :: "node list \<Rightarrow> string option \<Rightarrow> error + XsdSimpleType list" where
  "parseSimpleTypeLoop [] xsdPrefix = Inr []"
| "parseSimpleTypeLoop (st # sts) xsdPrefix =
     andThen (parseSimpleType st xsdPrefix (attr st ''name'')) (\<lambda>simpleType.
     andThen (parseSimpleTypeLoop sts xsdPrefix) (\<lambda>rest.
       Inr (case simpleType of Some t \<Rightarrow> t # rest | None \<Rightarrow> rest)))"

definition parseSimpleTypes :: "node \<Rightarrow> string option \<Rightarrow> error + XsdSimpleType list" where
  "parseSimpleTypes xsd xsdPrefix =
     andThen (getAsArray xsd ''simpleType'' xsdPrefix) (\<lambda>typeArray.
       parseSimpleTypeLoop typeArray xsdPrefix)"

definition parseSimpleTypesFromAnnotation ::
  "node \<Rightarrow> string option \<Rightarrow> error + XsdSimpleType list" where
  "parseSimpleTypesFromAnnotation annotation xsdPrefix =
     andThen (getTypeValue annotation ''documentation'' xsdPrefix) (\<lambda>documentation.
       case documentation of
         None \<Rightarrow> Inr []
       | Some d \<Rightarrow>
           (if truthy d then
              andThen (getAsArray d ''simpleType'' xsdPrefix) (\<lambda>simpleTypeArray.
                parseSimpleTypeLoop simpleTypeArray xsdPrefix)
            else Inr []))"

text \<open>
  The body of the loop of \<open>parseElements\<close>: a top-level element whose \<open>type\<close> names a
  parsed complex type takes a copy of that type's attributes.
\<close>

definition withAttributes :: "XsdAttribute list \<Rightarrow> XsdElement \<Rightarrow> XsdElement" where
  "withAttributes v e = XsdElement (el_name e) (el_type e) (el_complexType e) (el_simpleType e)
     v (el_minOccurs e) (el_maxOccurs e) (el_isRef e) (el_ref e) (el_nillable e)"

definition inheritAttributes :: "XsdComplexType list \<Rightarrow> XsdElement \<Rightarrow> XsdElement" where
  "inheritAttributes cts element =
     (if truthyS (el_type element) then
        (case find (\<lambda>ct. ct_name ct = el_type element) cts of
           Some complexType \<Rightarrow> withAttributes (ct_attributes complexType) element
         | None \<Rightarrow> element)
      else element)"

fun parseTopElementLoop ::
  "node list \<Rightarrow> XsdComplexType list \<Rightarrow> string option \<Rightarrow> error + XsdElement list" where
  "parseTopElementLoop [] cts xsdPrefix = Inr []"
| "parseTopElementLoop (el # els) cts xsdPrefix =
     andThen (parseElement el xsdPrefix) (\<lambda>element.
     andThen (parseTopElementLoop els cts xsdPrefix) (\<lambda>rest.
       Inr (case element of Some e \<Rightarrow> inheritAttributes cts e # rest | None \<Rightarrow> rest)))"

definition parseElements :: "node \<Rightarrow> string option \<Rightarrow> error + XsdElement list" where
  "parseElements xsd xsdPrefix =
     andThen (getAsArray xsd ''element'' xsdPrefix) (\<lambda>elementArray.
     andThen (parseComplexTypes xsd xsdPrefix) (\<lambda>cts.
       parseTopElementLoop elementArray cts xsdPrefix))"

subsection \<open>Reference collector\<close>

text \<open>The element that \<open>collectFromElements\<close> pushes for an element with \<open>isRef\<close>.\<close>

definition refElement :: "XsdElement \<Rightarrow> XsdElement" where
  "refElement el = XsdElement
     (Some (if truthyS (el_ref el) then the (el_ref el)
            else if truthyS (el_name el) then the (el_name el) else []))
     (el_type el) (el_complexType el) (el_simpleType el) (el_attributes el)
     (el_minOccurs el) (el_maxOccurs el) (Some True) (el_ref el) (el_nillable el)"

text \<open>
  \<open>collectFromElements\<close> and \<open>collectFromComplexType\<close> push to the array
  \<open>referencedElements\<close> of the enclosing function; here it is passed in and returned.
\<close>

fun collectFromElements :: "XsdElement list \<Rightarrow> XsdElement list \<Rightarrow> XsdElement list"
  and collectFromElement :: "XsdElement \<Rightarrow> XsdElement list \<Rightarrow> XsdElement list"
  and collectFromComplexType :: "XsdComplexType \<Rightarrow> XsdElement list \<Rightarrow> XsdElement list"
  and collectFromExtension :: "XsdExtension \<Rightarrow> XsdElement list \<Rightarrow> XsdElement list"
where
  "collectFromElements [] referencedElements = referencedElements"
| "collectFromElements (el # els) referencedElements =
     collectFromElements els (collectFromElement el referencedElements)"
| "collectFromElement (XsdElement n t c s a mi ma isRef r nl) referencedElements =
     (let el = XsdElement n t c s a mi ma isRef r nl;
          refs1 = (if isRef = Some True then referencedElements @ [refElement el]
                   else referencedElements)
      in case c of
           Some complexType \<Rightarrow> collectFromComplexType complexType refs1
         | None \<Rightarrow> refs1)"
| "collectFromComplexType (XsdComplexType n sq ch al a ex co) referencedElements =
     (let refs1 = (case sq of Some es \<Rightarrow> collectFromElements es referencedElements
                            | None \<Rightarrow> referencedElements);
          refs2 = (case ch of Some es \<Rightarrow> collectFromElements es refs1 | None \<Rightarrow> refs1);
          refs3 = (case al of Some es \<Rightarrow> collectFromElements es refs2 | None \<Rightarrow> refs2)
      in case ex of
           Some extension \<Rightarrow> collectFromExtension extension refs3
         | None \<Rightarrow> refs3)"
| "collectFromExtension (XsdExtension b sq a) referencedElements =
     (case sq of Some es \<Rightarrow> collectFromElements es referencedElements
               | None \<Rightarrow> referencedElements)"

definition collectReferencedElements :: "XsdComplexType list \<Rightarrow> XsdElement list" where
  "collectReferencedElements cts = fold collectFromComplexType cts []"

subsection \<open>\<open>parseXsd\<close>\<close>

definition isSchemaKey :: "string \<Rightarrow> bool" where
  "isSchemaKey k = (k = ''schema'' \<or> endsWith k '':schema'')"

fun joinWith :: "string \<Rightarrow> string list \<Rightarrow> string" where
  "joinWith sep [] = []"
| "joinWith sep [x] = x"
| "joinWith sep (x # y # ys) = x @ sep @ joinWith sep (y # ys)"

text \<open>
  \<open>findSchemaElement\<close>, with the warning it prints.  \<open>Object.keys\<close> of a string or an
  array are its indices and never a schema key, so such a root is returned as it is.
\<close>

fun findSchemaElement :: "node \<Rightarrow> node \<times> string list" where
  "findSchemaElement (Obj kvs) =
     (let schemaEntries = filter (\<lambda>kv. isSchemaKey (fst kv)) kvs in
      if length schemaEntries = 1 then (snd (hd schemaEntries), [])
      else if length schemaEntries > 1 then
        (snd (hd schemaEntries),
         [''Multiple schema elements found: '' @ joinWith '', '' (map fst schemaEntries)
            @ ''. Using first.''])
      else (Obj kvs, []))"
| "findSchemaElement parsed = (parsed, [])"

definition orUndefined :: "string option \<Rightarrow> string option" where
  "orUndefined p = (if truthyS p then p else None)"

text \<open>
  The steps of \<open>parseXsd\<close> that follow the namespace resolution: the top-level
  elements, complex types and simple types, the simple types of the annotation, and
  the referenced elements, read with the prefix \<open>xsdPrefix || undefined\<close>.
\<close>

definition buildSchema :: "node \<Rightarrow> string option \<Rightarrow> error + XsdSchema" where
  "buildSchema xsd xsdPrefix =
     andThen (parseElements xsd xsdPrefix) (\<lambda>elems.
     andThen (parseComplexTypes xsd xsdPrefix) (\<lambda>cts.
     andThen (parseSimpleTypes xsd xsdPrefix) (\<lambda>sts.
     andThen (getTypeValue xsd ''annotation'' xsdPrefix) (\<lambda>annotation.
     andThen (case annotation of
                Some a \<Rightarrow> (if truthy a then parseSimpleTypesFromAnnotation a xsdPrefix
                           else Inr [])
              | None \<Rightarrow> Inr []) (\<lambda>annotationSimpleTypes.
       Inr \<lparr>targetNamespace = attr xsd ''targetNamespace'',
            elementFormDefault = attr xsd ''elementFormDefault'',
            elements = elems @ collectReferencedElements cts,
            complexTypes = cts,
            simpleTypes = sts @ annotationSimpleTypes\<rparr>)))))"

definition prefixWarning :: string where
  "prefixWarning = ''Warning: Could not detect XSD namespace prefix. Schema parsing may fail.''"

text \<open>
  \<open>parseXsd\<close>.  The tokenizer \<open>parser.parse\<close> is the external collaborator: it is the
  parameter \<open>parse\<close>, and its failure is the error it returns.  The result is the list
  of warnings printed (\<open>console.warn\<close>) and the schema or the error thrown.
\<close>

definition parseXsd ::
  "(string \<Rightarrow> error + node) \<Rightarrow> string \<Rightarrow> string list \<times> (error + XsdSchema)" where
  "parseXsd parse xsdContent =
     (case parse xsdContent of
        Inl e \<Rightarrow> ([], Inl e)
      | Inr parsed \<Rightarrow>
         (let found = findSchemaElement parsed;
              xsd = fst found;
              namespaceContext = extractNamespaces xsd;
              xsdPrefix = ctx_xsdPrefix namespaceContext;
              warnings = snd found @ (if \<not> truthyS xsdPrefix then [prefixWarning] else [])
          in (warnings, buildSchema xsd (orUndefined xsdPrefix))))"

section \<open>Naming (\<open>naming.ts\<close>)\<close>

datatype NamingConvention = Camel | Pascal | Original | Kebab

text \<open>
  What the code takes from outside the repository: the three case functions of the
  library \<open>change-case\<close>, and the text JavaScript prints for a number read by
  \<open>parseFloat\<close>.  The case functions get whatever the caller holds, which is
  \<open>undefined\<close> for an element without a name; they return a string or throw.
\<close>

record externals =
  camelCase :: "string option \<Rightarrow> error + string"
  pascalCase :: "string option \<Rightarrow> error + string"
  kebabCase :: "string option \<Rightarrow> error + string"
  floatText :: "jsfloat \<Rightarrow> string"

definition applyNaming ::
  "externals \<Rightarrow> string option \<Rightarrow> NamingConvention \<Rightarrow> error + string option" where
  "applyNaming ext name convention =
     (case convention of
        Camel \<Rightarrow> andThen (camelCase ext name) (\<lambda>s. Inr (Some s))
      | Pascal \<Rightarrow> andThen (pascalCase ext name) (\<lambda>s. Inr (Some s))
      | Kebab \<Rightarrow> andThen (kebabCase ext name) (\<lambda>s. Inr (Some s))
      | Original \<Rightarrow> Inr name)"

text \<open>
  The text a template literal (or \<open>+\<close> with a string) gives for an optional string:
  \<open>undefined\<close> prints as the word.
\<close>

definition textOf :: "string option \<Rightarrow> string" where
  "textOf x = (case x of Some s \<Rightarrow> s | None \<Rightarrow> ''undefined'')"

definition getTypeName ::
  "externals \<Rightarrow> string option \<Rightarrow> NamingConvention \<Rightarrow> error + string option" where
  "getTypeName ext name convention =
     (case convention of
        Camel \<Rightarrow> andThen (pascalCase ext name) (\<lambda>s. Inr (Some s))
      | Pascal \<Rightarrow> andThen (pascalCase ext name) (\<lambda>s. Inr (Some s))
      | Kebab \<Rightarrow> andThen (pascalCase ext name) (\<lambda>s. Inr (Some s))
      | Original \<Rightarrow> Inr name)"

definition getSchemaName ::
  "externals \<Rightarrow> string option \<Rightarrow> NamingConvention \<Rightarrow> error + string" where
  "getSchemaName ext name convention =
     (case convention of
        Camel \<Rightarrow> andThen (pascalCase ext name) (\<lambda>s. Inr (s @ ''Schema''))
      | Pascal \<Rightarrow> andThen (pascalCase ext name) (\<lambda>s. Inr (s @ ''Schema''))
      | Kebab \<Rightarrow> andThen (pascalCase ext name) (\<lambda>s. Inr (s @ ''Schema''))
      | Original \<Rightarrow> Inr (textOf name @ ''Schema''))"

section \<open>Primitive mapper (\<open>primitive.ts\<close>)\<close>

record TypeMapping =
  tsType :: string
  zodValidator :: string

definition tm :: "string \<Rightarrow> string \<Rightarrow> TypeMapping" where
  "tm t z = \<lparr>tsType = t, zodValidator = z\<rparr>"

definition PRIMITIVE_TYPE_MAP :: "(string \<times> TypeMapping) list" where
  "PRIMITIVE_TYPE_MAP =
    [(''string'', tm ''string'' ''z.string()''),
     (''int'', tm ''number'' ''z.number().int()''),
     (''integer'', tm ''number'' ''z.number().int()''),
     (''decimal'', tm ''number'' ''z.number()''),
     (''float'', tm ''number'' ''z.number()''),
     (''double'', tm ''number'' ''z.number()''),
     (''boolean'', tm ''boolean'' ''z.boolean()''),
     (''date'', tm ''string'' ''z.string().date()''),
     (''dateTime'', tm ''string'' ''z.string().datetime()''),
     (''time'', tm ''string'' ''z.string().time()''),
     (''anyURI'', tm ''string'' ''z.string().url()''),
     (''base64Binary'', tm ''string'' ''z.string()''),
     (''hexBinary'', tm ''string'' ''z.string()''),
     (''duration'', tm ''string'' ''z.string()''),
     (''gDay'', tm ''string'' ''z.string()''),
     (''gMonth'', tm ''string'' ''z.string()''),
     (''gMonthDay'', tm ''string'' ''z.string()''),
     (''gYear'', tm ''string'' ''z.string()''),
     (''gYearMonth'', tm ''string'' ''z.string()''),
     (''ID'', tm ''string'' ''z.string()''),
     (''IDREF'', tm ''string'' ''z.string()''),
     (''ENTITY'', tm ''string'' ''z.string()''),
     (''NMTOKEN'', tm ''string'' ''z.string()''),
     (''normalizedString'', tm ''string'' ''z.string()''),
     (''token'', tm ''string'' ''z.string()''),
     (''language'', tm ''string'' ''z.string()''),
     (''Name'', tm ''string'' ''z.string()''),
     (''NCName'', tm ''string'' ''z.string()''),
     (''anyType'', tm ''any'' ''z.any()''),
     (''anySimpleType'', tm ''any'' ''z.any()''),
     (''positiveInteger'', tm ''number'' ''z.number().int().positive()''),
     (''nonNegativeInteger'', tm ''number'' ''z.number().int().nonnegative()''),
     (''negativeInteger'', tm ''number'' ''z.number().int().negative()''),
     (''nonPositiveInteger'', tm ''number'' ''z.number().int().nonpositive()''),
     (''long'', tm ''number'' ''z.number().int()''),
     (''short'', tm ''number'' ''z.number().int()''),
     (''byte'', tm ''number'' ''z.number().int()''),
     (''unsignedLong'', tm ''number'' ''z.number().int().nonnegative()''),
     (''unsignedInt'', tm ''number'' ''z.number().int().nonnegative()''),
     (''unsignedShort'', tm ''number'' ''z.number().int().nonnegative()''),
     (''unsignedByte'', tm ''number'' ''z.number().int().nonnegative()''),
     (''QName'', tm ''string'' ''z.string()''),
     (''NOTATION'', tm ''string'' ''z.string()'')]"

text \<open>
  \<open>mapPrimitiveType\<close>, in the version that strips the namespace prefix.  (A type named
  like a property every JavaScript object inherits, such as \<open>toString\<close>, is outside
  the model.)
\<close>

definition mapPrimitiveType :: "string \<Rightarrow> TypeMapping" where
  "mapPrimitiveType xsdType =
     (case map_of PRIMITIVE_TYPE_MAP (stripNamespace xsdType) of
        Some mapping \<Rightarrow> mapping
      | None \<Rightarrow> tm ''any'' ''z.any()'')"

text \<open>The text of a number in a template literal (integers in plain decimal notation).\<close>

fun showNat :: "nat \<Rightarrow> string" where
  "showNat n = (if n < 10 then [char_of (48 + n)]
                else showNat (n div 10) @ [char_of (48 + n mod 10)])"

definition numberText :: "number \<Rightarrow> string" where
  "numberText x =
     (case x of
        NaN \<Rightarrow> ''NaN''
      | Number i \<Rightarrow> (if i < 0 then ''-'' @ showNat (nat (- i)) else showNat (nat i)))"

text \<open>Truthiness of an optional number: \<open>undefined\<close>, \<open>NaN\<close> and \<open>0\<close> are falsy.\<close>

definition truthyN :: "number option \<Rightarrow> bool" where
  "truthyN x = (case x of Some (Number i) \<Rightarrow> i \<noteq> 0 | _ \<Rightarrow> False)"

text \<open>\<open>pattern.replace(/\\/g, '\\\\')\<close>: every backslash is doubled.\<close>

definition escapePattern :: "string \<Rightarrow> string" where
  "escapePattern p = concat (map (\<lambda>c. if c = CHR 0x5C then [c, c] else [c]) p)"

definition applyFacets :: "externals \<Rightarrow> TypeMapping \<Rightarrow> XsdRestriction \<Rightarrow> TypeMapping" where
  "applyFacets ext baseMapping facets =
     (let z0 = zodValidator baseMapping;
          z1 = (if truthyN (r_minLength facets)
                then z0 @ ''.min('' @ numberText (the (r_minLength facets)) @ '')'' else z0);
          z2 = (if truthyN (r_maxLength facets)
                then z1 @ ''.max('' @ numberText (the (r_maxLength facets)) @ '')'' else z1);
          z3 = (if truthyN (r_length facets)
                then z2 @ ''.length('' @ numberText (the (r_length facets)) @ '')'' else z2);
          z4 = (if truthyS (r_pattern facets)
                then z3 @ ''.regex(/'' @ escapePattern (the (r_pattern facets)) @ ''/)'' else z3);
          z5 = (case r_minInclusive facets of
                  Some v \<Rightarrow> z4 @ ''.min('' @ floatText ext v @ '')'' | None \<Rightarrow> z4);
          z6 = (case r_maxInclusive facets of
                  Some v \<Rightarrow> z5 @ ''.max('' @ floatText ext v @ '')'' | None \<Rightarrow> z5);
          z7 = (case r_minExclusive facets of
                  Some v \<Rightarrow> z6 @ ''.gt('' @ floatText ext v @ '')'' | None \<Rightarrow> z6);
          z8 = (case r_maxExclusive facets of
                  Some v \<Rightarrow> z7 @ ''.lt('' @ floatText ext v @ '')'' | None \<Rightarrow> z7);
          t1 = (if truthyN (r_totalDigits facets) then ''number'' else tsType baseMapping);
          t2 = (if truthyN (r_fractionDigits facets) then ''number'' else t1)
      in \<lparr>tsType = t2, zodValidator = z8\<rparr>)"

text \<open>The text of a tree value in a template literal.\<close>

fun nodeText :: "node \<Rightarrow> string" where
  "nodeText (Text s) = s"
| "nodeText (Num n) = numberText (Number n)"
| "nodeText (Bool b) = (if b then ''true'' else ''false'')"
| "nodeText (Obj kvs) = ''[object Object]''"
| "nodeText (Arr xs) = joinWith '','' (map nodeText xs)"

definition quoted :: "node \<Rightarrow> string" where
  "quoted v = [CHR 0x27] @ nodeText v @ [CHR 0x27]"

definition mapEnumeration :: "XsdSimpleType \<Rightarrow> TypeMapping" where
  "mapEnumeration simpleType =
     (let values = (case r_enumerations (st_restriction simpleType) of
                      Some vs \<Rightarrow> vs | None \<Rightarrow> [])
      in \<lparr>tsType = joinWith '' | '' (map quoted values),
          zodValidator = ''z.enum(['' @ joinWith '', '' (map quoted values) @ ''])''\<rparr>)"

section \<open>Complex mapper (\<open>complex.ts\<close>)\<close>

text \<open>
  A \<open>tsType\<close> is only ever printed, so a \<open>TypeMapping\<close> holds the text of what
  \<open>getTypeName\<close> returns.
\<close>

record MappedElement =
  me_name :: "string option"
  me_tsType :: string
  me_zodValidator :: string
  me_optional :: bool
  me_isArray :: bool

record MappedAttribute =
  ma_name :: "string option"
  ma_tsType :: string
  ma_zodValidator :: string
  ma_optional :: bool

record MappedComplexType =
  typeName :: string
  schemaName :: string
  tsInterface :: string
  zodObject :: string

text \<open>\<open>findCustomType\<close>: the complex type of that name, else the simple type, else \<open>null\<close>.\<close>

definition findCustomType :: "string \<Rightarrow> XsdSchema \<Rightarrow> (XsdComplexType + XsdSimpleType) option" where
  "findCustomType name schema =
     (case find (\<lambda>ct. ct_name ct = Some name) (complexTypes schema) of
        Some complexType \<Rightarrow> Some (Inl complexType)
      | None \<Rightarrow>
          (case find (\<lambda>st. st_name st = Some name) (simpleTypes schema) of
             Some simpleType \<Rightarrow> Some (Inr simpleType)
           | None \<Rightarrow> None))"

definition customTypeName :: "XsdComplexType + XsdSimpleType \<Rightarrow> string option" where
  "customTypeName c = (case c of Inl ct \<Rightarrow> ct_name ct | Inr st \<Rightarrow> st_name st)"

text \<open>The branch \<open>else if (x.type)\<close> shared by \<open>mapElement\<close> and \<open>mapAttribute\<close>.\<close>

definition mapNamedType ::
  "externals \<Rightarrow> string \<Rightarrow> NamingConvention \<Rightarrow> XsdSchema \<Rightarrow> error + TypeMapping" where
  "mapNamedType ext t naming schema =
     (case findCustomType t schema of
        Some customType \<Rightarrow>
          andThen (getTypeName ext (customTypeName customType) naming) (\<lambda>tn.
          andThen (getSchemaName ext (customTypeName customType) naming) (\<lambda>sn.
            Inr \<lparr>tsType = textOf tn, zodValidator = sn\<rparr>))
      | None \<Rightarrow> Inr (mapPrimitiveType t))"

text \<open>The branch \<open>if (x.simpleType)\<close> shared by \<open>mapElement\<close> and \<open>mapAttribute\<close>.\<close>

definition mapInlineSimpleType :: "externals \<Rightarrow> XsdSimpleType \<Rightarrow> TypeMapping" where
  "mapInlineSimpleType ext simpleType =
     (if r_enumerations (st_restriction simpleType) \<noteq> None then mapEnumeration simpleType
      else applyFacets ext (mapPrimitiveType (r_base (st_restriction simpleType)))
             (st_restriction simpleType))"

definition mapAttribute ::
  "externals \<Rightarrow> XsdAttribute \<Rightarrow> NamingConvention \<Rightarrow> XsdSchema \<Rightarrow> error + MappedAttribute" where
  "mapAttribute ext attribute naming schema =
     andThen (applyNaming ext (at_name attribute) naming) (\<lambda>name.
     let optional = (at_use attribute = None \<or> at_use attribute = Some ''optional'') in
     andThen (case at_simpleType attribute of
                Some st \<Rightarrow> Inr (mapInlineSimpleType ext st)
              | None \<Rightarrow>
                  (if truthyS (at_type attribute)
                   then mapNamedType ext (the (at_type attribute)) naming schema
                   else Inr \<lparr>tsType = ''string'', zodValidator = ''z.string()''\<rparr>))
       (\<lambda>typeMapping.
         Inr \<lparr>ma_name = name, ma_tsType = tsType typeMapping,
              ma_zodValidator = zodValidator typeMapping, ma_optional = optional\<rparr>))"

fun mapAttributes ::
  "externals \<Rightarrow> XsdAttribute list \<Rightarrow> NamingConvention \<Rightarrow> XsdSchema
     \<Rightarrow> error + MappedAttribute list" where
  "mapAttributes ext [] naming schema = Inr []"
| "mapAttributes ext (a # as) naming schema =
     andThen (mapAttribute ext a naming schema) (\<lambda>x.
     andThen (mapAttributes ext as naming schema) (\<lambda>xs. Inr (x # xs)))"

text \<open>A field of \<open>allFields\<close>: name, TypeScript type, validator, optional.\<close>

type_synonym field = "string option \<times> string \<times> string \<times> bool"

definition elementField :: "MappedElement \<Rightarrow> field" where
  "elementField m = (me_name m, me_tsType m, me_zodValidator m, me_optional m)"

definition attributeField :: "MappedAttribute \<Rightarrow> field" where
  "attributeField m = (ma_name m, ma_tsType m, ma_zodValidator m, ma_optional m)"

definition tsLine :: "field \<Rightarrow> string" where
  "tsLine f = (case f of (n, t, z, opt) \<Rightarrow>
     ''  '' @ textOf n @ (if opt then ''?'' else []) @ '': '' @ t)"

definition zodLine :: "field \<Rightarrow> string" where
  "zodLine f = (case f of (n, t, z, opt) \<Rightarrow>
     ''  '' @ textOf n @ '': '' @ z @ (if opt then ''.optional()'' else []))"

definition newline :: string where
  "newline = [CHR 0x0A]"

definition renderInterface :: "field list \<Rightarrow> string" where
  "renderInterface allFields =
     (if length allFields > 0
      then ''{'' @ newline @ joinWith ('','' @ newline) (map tsLine allFields) @ newline @ ''}''
      else ''{}'')"

definition renderZodObject :: "field list \<Rightarrow> string" where
  "renderZodObject allFields =
     (if length allFields > 0
      then ''z.object({'' @ newline @ joinWith ('','' @ newline) (map zodLine allFields)
             @ newline @ ''})''
      else ''z.object({})'')"

definition isOptionalOccurs :: "number option \<Rightarrow> bool" where
  "isOptionalOccurs minOcc = (minOcc = Some (Number 0))"

definition isArrayOccurs :: "maxOccurs option \<Rightarrow> bool" where
  "isArrayOccurs maxOcc =
     (case maxOcc of
        Some Unbounded \<Rightarrow> True
      | Some (MaxNumber (Number n)) \<Rightarrow> n > 1
      | _ \<Rightarrow> False)"

text \<open>The last step of \<open>mapElement\<close>: the array wrapper and the result.\<close>

definition finishElement ::
  "string option \<Rightarrow> bool \<Rightarrow> bool \<Rightarrow> TypeMapping \<Rightarrow> MappedElement" where
  "finishElement name optional isArray typeMapping =
     (let typeMapping1 =
        (if isArray
         then \<lparr>tsType = tsType typeMapping @ ''[]'',
               zodValidator = ''z.array('' @ zodValidator typeMapping @ '')''\<rparr>
         else typeMapping)
      in \<lparr>me_name = name, me_tsType = tsType typeMapping1,
           me_zodValidator = zodValidator typeMapping1,
           me_optional = optional, me_isArray = isArray\<rparr>)"

text \<open>
  \<open>elementTypeMapping\<close> is the chain \<open>if (element.complexType) ... else ...\<close> of
  \<open>mapElement\<close> that chooses \<open>typeMapping\<close>.
\<close>

fun mapElement ::
    "externals \<Rightarrow> XsdElement \<Rightarrow> NamingConvention \<Rightarrow> XsdSchema \<Rightarrow> error + MappedElement"
  and elementTypeMapping ::
    "externals \<Rightarrow> XsdElement \<Rightarrow> NamingConvention \<Rightarrow> XsdSchema \<Rightarrow> error + TypeMapping"
  and mapElements ::
    "externals \<Rightarrow> XsdElement list \<Rightarrow> NamingConvention \<Rightarrow> XsdSchema
       \<Rightarrow> error + MappedElement list"
  and mapComplexType ::
    "externals \<Rightarrow> XsdComplexType \<Rightarrow> NamingConvention \<Rightarrow> XsdSchema
       \<Rightarrow> error + MappedComplexType"
where
  "mapElement ext (XsdElement n t c s a mi ma r rf nl) naming schema =
     andThen (applyNaming ext n naming) (\<lambda>name.
     andThen (elementTypeMapping ext (XsdElement n t c s a mi ma r rf nl) naming schema)
       (\<lambda>typeMapping.
         Inr (finishElement name (isOptionalOccurs mi) (isArrayOccurs ma) typeMapping)))"
| "elementTypeMapping ext (XsdElement n t c s a mi ma r rf nl) naming schema =
     (case c of
        Some complexType \<Rightarrow>
          andThen (mapComplexType ext complexType naming schema) (\<lambda>complex.
            Inr \<lparr>tsType = typeName complex, zodValidator = schemaName complex\<rparr>)
      | None \<Rightarrow>
          (case s of
             Some simpleType \<Rightarrow> Inr (mapInlineSimpleType ext simpleType)
           | None \<Rightarrow>
               (if truthyS t then mapNamedType ext (the t) naming schema
                else Inr \<lparr>tsType = ''any'', zodValidator = ''z.any()''\<rparr>)))"
| "mapElements ext [] naming schema = Inr []"
| "mapElements ext (el # els) naming schema =
     andThen (mapElement ext el naming schema) (\<lambda>x.
     andThen (mapElements ext els naming schema) (\<lambda>xs. Inr (x # xs)))"
| "mapComplexType ext (XsdComplexType n sq ch al a ex co) naming schema =
     andThen (mapElements ext co naming schema) (\<lambda>elems.
     andThen (mapAttributes ext a naming schema) (\<lambda>attributes.
     andThen (if truthyS n then andThen (getTypeName ext n naming) (\<lambda>tn. Inr (textOf tn))
              else Inr ''AnonymousType'') (\<lambda>tyName.
     andThen (if truthyS n then getSchemaName ext n naming
              else Inr ''anonymousSchema'') (\<lambda>scName.
     let allFields = map elementField elems @ map attributeField attributes in
       Inr \<lparr>typeName = tyName, schemaName = scName,
            tsInterface = renderInterface allFields,
            zodObject = renderZodObject allFields\<rparr>))))"

section \<open>Dependency orderer (\<open>validators.ts\<close>)\<close>

subsection \<open>The scan \<open>/([A-Z][a-zA-Z0-9]*)Schema/g\<close>\<close>

definition isUpper :: "char \<Rightarrow> bool" where
  "isUpper c = (let n = (of_char c :: nat) in 65 \<le> n \<and> n \<le> 90)"

definition isAlnum :: "char \<Rightarrow> bool" where
  "isAlnum c = (let n = (of_char c :: nat) in
     (48 \<le> n \<and> n \<le> 57) \<or> (65 \<le> n \<and> n \<le> 90) \<or> (97 \<le> n \<and> n \<le> 122))"

text \<open>
  The greedy \<open>[a-zA-Z0-9]*\<close> first takes the whole run of letters and digits and then
  gives characters back until \<open>Schema\<close> follows: \<open>backtrack k cs\<close> is the largest
  \<open>j \<le> k\<close> with \<open>Schema\<close> at offset \<open>j\<close> of \<open>cs\<close>.
\<close>

fun backtrack :: "nat \<Rightarrow> string \<Rightarrow> nat option" where
  "backtrack 0 cs = (if startsWith cs ''Schema'' then Some 0 else None)"
| "backtrack (Suc k) cs =
     (if startsWith (drop (Suc k) cs) ''Schema'' then Some (Suc k) else backtrack k cs)"

text \<open>A match at the start of the text: the captured name and the text after the match.\<close>

definition matchSchemaAt :: "string \<Rightarrow> (string \<times> string) option" where
  "matchSchemaAt s =
     (case s of
        [] \<Rightarrow> None
      | c # cs \<Rightarrow>
          (if isUpper c then
             (case backtrack (length (takeWhile isAlnum cs)) cs of
                Some k \<Rightarrow> Some (c # take k cs, drop (k + 6) cs)
              | None \<Rightarrow> None)
           else None))"

lemma matchSchemaAt_shorter: "matchSchemaAt s = Some (name, rest) \<Longrightarrow> length rest < length s"
  by (auto simp: matchSchemaAt_def split: list.splits if_splits option.splits)

text \<open>The loop \<open>while ((match = schemaRegex.exec(zodObject)) !== null)\<close>: every \<open>match[1]\<close>.\<close>

function schemaMatches :: "string \<Rightarrow> string list" where
  "schemaMatches [] = []"
| "schemaMatches (c # cs) =
     (case matchSchemaAt (c # cs) of
        Some (name, rest) \<Rightarrow> name # schemaMatches rest
      | None \<Rightarrow> schemaMatches cs)"
  by pat_completeness auto
termination
  by (relation "measure length") (auto dest: matchSchemaAt_shorter)

text \<open>\<open>s.replace("Schema", "")\<close>: the first occurrence is removed.\<close>

fun removeFirstSchema :: "string \<Rightarrow> string" where
  "removeFirstSchema [] = []"
| "removeFirstSchema (c # cs) =
     (if startsWith (c # cs) ''Schema'' then drop 6 (c # cs) else c # removeFirstSchema cs)"

text \<open>The array \<open>dependencies\<close> that \<open>visit\<close> of \<open>topologicalSortComplexTypes\<close> builds.\<close>

definition dependencies ::
  "externals \<Rightarrow> NamingConvention \<Rightarrow> XsdSchema \<Rightarrow> XsdComplexType \<Rightarrow> error + string list" where
  "dependencies ext naming schema complexType =
     andThen (mapComplexType ext complexType naming schema) (\<lambda>mapped.
     andThen (getSchemaName ext (ct_name complexType) naming) (\<lambda>currentSchemaName.
       Inr (filter (\<lambda>depName. depName \<noteq> removeFirstSchema currentSchemaName)
              (schemaMatches (zodObject mapped)))))"

text \<open>
  The one dependency \<open>visit\<close> of \<open>topologicalSortSimpleTypes\<close> follows: the restriction
  base, when it is a non-empty string.
\<close>

definition baseDependency :: "XsdSimpleType \<Rightarrow> error + string list" where
  "baseDependency simpleType =
     (let baseTypeName = r_base (st_restriction simpleType) in
      Inr (if baseTypeName \<noteq> [] then [baseTypeName] else []))"

subsection \<open>The depth-first visit\<close>

text \<open>
  \<open>nameToIndex\<close>: the \<open>forEach\<close> sets the index of every type with a truthy name, a
  later type of the same name replacing an earlier one.
\<close>

definition nameToIndex :: "('a \<Rightarrow> string option) \<Rightarrow> 'a list \<Rightarrow> (string \<rightharpoonup> nat)" where
  "nameToIndex nm items =
     fold (\<lambda>(idx, x) m. if truthyS (nm x) then m(the (nm x) \<mapsto> idx) else m)
       (enumerate 0 items) Map.empty"

record 'a sortState =
  visited :: "string set"
  visiting :: "string set"
  result :: "'a list"
  warned :: "string list"

definition circularWarning :: "string \<Rightarrow> string" where
  "circularWarning name = ''Circular dependency detected involving '' @ name"

text \<open>
  The two sorts have the same \<open>visit\<close>; they differ in the type of the items, in
  their \<open>name\<close> (\<open>nm\<close>) and in the dependencies followed (\<open>deps\<close>, which throws when
  the mapper does).  The closure variables \<open>visited\<close>, \<open>visiting\<close> and \<open>result\<close> and
  the warnings printed are the state.  The recursion of \<open>visit\<close> is bounded by a
  counter: \<open>None\<close> means that the counter ran out.

  \<open>visitEach v idx items deps s\<close> is the loop over the dependencies: each one that
  \<open>nameToIndex\<close> knows is visited with \<open>v\<close>; reading a name of \<open>undefined\<close> (an index
  beyond the array) would throw.
\<close>

fun visitEach ::
  "('a \<Rightarrow> 'a sortState \<Rightarrow> (error + 'a sortState) option) \<Rightarrow> (string \<rightharpoonup> nat) \<Rightarrow> 'a list
    \<Rightarrow> string list \<Rightarrow> 'a sortState \<Rightarrow> (error + 'a sortState) option" where
  "visitEach v idx items [] s = Some (Inr s)"
| "visitEach v idx items (depName # rest) s =
     (case idx depName of
        None \<Rightarrow> visitEach v idx items rest s
      | Some depIndex \<Rightarrow>
          (if depIndex < length items then
             (case v (items ! depIndex) s of
                None \<Rightarrow> None
              | Some (Inl e) \<Rightarrow> Some (Inl e)
              | Some (Inr s') \<Rightarrow> visitEach v idx items rest s')
           else Some (Inl TypeError)))"

primrec visit ::
  "('a \<Rightarrow> string option) \<Rightarrow> ('a \<Rightarrow> error + string list) \<Rightarrow> (string \<rightharpoonup> nat) \<Rightarrow> 'a list
    \<Rightarrow> nat \<Rightarrow> 'a \<Rightarrow> 'a sortState \<Rightarrow> (error + 'a sortState) option" where
  "visit nm deps idx items 0 = (\<lambda>x s. None)"
| "visit nm deps idx items (Suc fuel) = (\<lambda>x s.
     if \<not> truthyS (nm x) then Some (Inr s)
     else
       (let name = the (nm x) in
        if name \<in> visited s then Some (Inr s)
        else if name \<in> visiting s then
          Some (Inr (s\<lparr>warned := warned s @ [circularWarning name]\<rparr>))
        else
          (case deps x of
             Inl e \<Rightarrow> Some (Inl e)
           | Inr ds \<Rightarrow>
               (case visitEach (visit nm deps idx items fuel) idx items ds
                       (s\<lparr>visiting := insert name (visiting s)\<rparr>) of
                  None \<Rightarrow> None
                | Some (Inl e) \<Rightarrow> Some (Inl e)
                | Some (Inr s') \<Rightarrow>
                    Some (Inr (s'\<lparr>visiting := visiting s' - {name},
                                  visited := insert name (visited s'),
                                  result := result s' @ [x]\<rparr>))))))"

text \<open>The loop \<open>for (const x of items) visit(x)\<close>.\<close>

fun visitAll ::
  "('a \<Rightarrow> 'a sortState \<Rightarrow> (error + 'a sortState) option) \<Rightarrow> 'a list \<Rightarrow> 'a sortState
    \<Rightarrow> (error + 'a sortState) option" where
  "visitAll v [] s = Some (Inr s)"
| "visitAll v (x # xs) s =
     (case v x s of
        None \<Rightarrow> None
      | Some (Inl e) \<Rightarrow> Some (Inl e)
      | Some (Inr s') \<Rightarrow> visitAll v xs s')"

text \<open>
  A sort: the counter starts above the number of items, which the recursion never
  exceeds (\<open>topologicalSort_returns\<close> below).  The result is the sorted array and the
  warnings printed.
\<close>

definition topologicalSort ::
  "('a \<Rightarrow> string option) \<Rightarrow> ('a \<Rightarrow> error + string list) \<Rightarrow> 'a list
    \<Rightarrow> (error + 'a list \<times> string list) option" where
  "topologicalSort nm deps items =
     (case visitAll (visit nm deps (nameToIndex nm items) items (Suc (length items))) items
             \<lparr>visited = {}, visiting = {}, result = [], warned = []\<rparr> of
        None \<Rightarrow> None
      | Some (Inl e) \<Rightarrow> Some (Inl e)
      | Some (Inr s) \<Rightarrow> Some (Inr (result s, warned s)))"

definition topologicalSortSimpleTypes ::
  "XsdSchema \<Rightarrow> (error + XsdSimpleType list \<times> string list) option" where
  "topologicalSortSimpleTypes schema =
     topologicalSort st_name baseDependency (simpleTypes schema)"

definition topologicalSortComplexTypes ::
  "externals \<Rightarrow> XsdSchema \<Rightarrow> NamingConvention
     \<Rightarrow> (error + XsdComplexType list \<times> string list) option" where
  "topologicalSortComplexTypes ext schema naming =
     topologicalSort ct_name (dependencies ext naming schema) (complexTypes schema)"

section \<open>Documents and predicates used by the properties\<close>

text \<open>
  The root binds the XSD namespace only by a default declaration: the key \<open>xmlns\<close>
  holds the XSD namespace URI, the keys are those of a JavaScript object (each once),
  and every prefixed declaration has a prefix and binds another URI.
\<close>

definition bound_only_by_default :: "(string \<times> node) list \<Rightarrow> bool" where
  "bound_only_by_default kvs =
     (map_of kvs ''xmlns'' = Some (Text XSD_NAMESPACE_URI) \<and> distinct (map fst kvs) \<and>
      list_all (\<lambda>kv. isNamespaceKey (fst kv) \<longrightarrow>
                 snd kv \<noteq> Text XSD_NAMESPACE_URI \<and> prefixOfKey (fst kv) \<noteq> Some []) kvs)"

text \<open>
  The tree of the document
  \<^verbatim>\<open><schema xmlns="http://www.w3.org/2001/XMLSchema"><element name="Test" type="string"/></schema>\<close>
  (the test "should handle no namespace prefix").
\<close>

definition noPrefixRoot :: "(string \<times> node) list" where
  "noPrefixRoot =
     [(''element'', Obj [(''name'', Text ''Test''), (''type'', Text ''string'')]),
      (''xmlns'', Text ''http://www.w3.org/2001/XMLSchema'')]"

definition noPrefixDocument :: node where
  "noPrefixDocument = Obj [(''schema'', Obj noPrefixRoot)]"

text \<open>
  A stand-in for the external functions, for the examples.  The examples use the
  convention \<open>original\<close>, under which no case function of the library is called.
\<close>

definition sampleExternals :: externals where
  "sampleExternals =
     \<lparr>camelCase = (\<lambda>x. case x of Some s \<Rightarrow> Inr s | None \<Rightarrow> Inl TypeError),
      pascalCase = (\<lambda>x. case x of Some s \<Rightarrow> Inr s | None \<Rightarrow> Inl TypeError),
      kebabCase = (\<lambda>x. case x of Some s \<Rightarrow> Inr s | None \<Rightarrow> Inl TypeError),
      floatText = (\<lambda>x. case x of ParseFloat s \<Rightarrow> s)\<rparr>"

definition emptySchema :: XsdSchema where
  "emptySchema = \<lparr>targetNamespace = None, elementFormDefault = None, elements = [],
                   complexTypes = [], simpleTypes = []\<rparr>"

text \<open>
  The attribute nodes of
  \<^verbatim>\<open><xs:attribute name="status" type="xs:string" use="required" default="active"/>\<close>
  and of
  \<^verbatim>\<open><xs:attribute name="status" type="xs:string" default="active"/>\<close>.
\<close>

definition requiredDefaultAttribute :: node where
  "requiredDefaultAttribute =
     Obj [(''name'', Text ''status''), (''type'', Text ''xs:string''),
          (''use'', Text ''required''), (''default'', Text ''active'')]"

definition plainDefaultAttribute :: node where
  "plainDefaultAttribute =
     Obj [(''name'', Text ''status''), (''type'', Text ''xs:string''),
          (''default'', Text ''active'')]"

text \<open>
  The element node of
  \<^verbatim>\<open><xs:element name="item" type="xs:string" minOccurs="0" maxOccurs="unbounded"/>\<close>.
\<close>

definition optionalArrayElement :: node where
  "optionalArrayElement =
     Obj [(''name'', Text ''item''), (''type'', Text ''xs:string''),
          (''minOccurs'', Text ''0''), (''maxOccurs'', Text ''unbounded'')]"

text \<open>
  A document whose tokenization succeeds:
  \<^verbatim>\<open><xs:schema xmlns:xs="http://www.w3.org/2001/XMLSchema">\<close>
  \<^verbatim>\<open>  <xs:annotation><xs:documentation>Order schema</xs:documentation></xs:annotation>\<close>
  \<^verbatim>\<open>  <xs:element name="Order" type="xs:string"/>\<close>
  \<^verbatim>\<open></xs:schema>\<close>
  The documentation element has no attribute and no child, so the tokenizer gives its
  text.
\<close>

definition annotatedDocument :: node where
  "annotatedDocument =
     Obj [(''xs:schema'', Obj
       [(''xs:annotation'', Obj [(''xs:documentation'', Text ''Order schema'')]),
        (''xs:element'', Obj [(''name'', Text ''Order''), (''type'', Text ''xs:string'')]),
        (''xmlns:xs'', Text ''http://www.w3.org/2001/XMLSchema'')])]"

text \<open>
  One logical schema, a complex type \<open>T\<close> with an attribute \<open>id\<close> of the built-in type
  \<open>string\<close>, written with the XSD namespace bound to \<open>xs\<close>, to \<open>xsd\<close>, and to no
  prefix:
  \<^verbatim>\<open><P:schema xmlns:P="http://www.w3.org/2001/XMLSchema">\<close>
  \<^verbatim>\<open>  <P:complexType name="T"><P:attribute name="id" type="P:string"/></P:complexType>\<close>
  \<^verbatim>\<open></P:schema>\<close>
\<close>

definition attributeDocument :: "string \<Rightarrow> node" where
  "attributeDocument p =
     Obj [(p @ '':schema'', Obj
       [(p @ '':complexType'', Obj
          [(p @ '':attribute'', Obj [(''name'', Text ''id''), (''type'', Text (p @ '':string''))]),
           (''name'', Text ''T'')]),
        (''xmlns:'' @ p, Text ''http://www.w3.org/2001/XMLSchema'')])]"

definition attributeDocumentNoPrefix :: node where
  "attributeDocumentNoPrefix =
     Obj [(''schema'', Obj
       [(''complexType'', Obj
          [(''attribute'', Obj [(''name'', Text ''id''), (''type'', Text ''string'')]),
           (''name'', Text ''T'')]),
        (''xmlns'', Text ''http://www.w3.org/2001/XMLSchema'')])]"

text \<open>
  The complex types of two tests of the parser, "mixed sequence and choice" and
  "nested inline complexType in choice":
  \<^verbatim>\<open><xs:complexType name="MixedType"><xs:sequence>\<close>
  \<^verbatim>\<open>  <xs:element name="field1" type="xs:string"/>\<close>
  \<^verbatim>\<open>  <xs:choice>\<close>
  \<^verbatim>\<open>    <xs:element name="field2" type="xs:int"/>\<close>
  \<^verbatim>\<open>    <xs:element name="field3" type="xs:boolean"/>\<close>
  \<^verbatim>\<open>  </xs:choice>\<close>
  \<^verbatim>\<open></xs:sequence></xs:complexType>\<close>
  and, in \<open>NestedChoiceType\<close>, \<open>field3\<close> with an inline complex type instead of a type:
  \<^verbatim>\<open>    <xs:element name="field3"><xs:complexType><xs:sequence>\<close>
  \<^verbatim>\<open>      <xs:element name="nested1" type="xs:boolean"/>\<close>
  \<^verbatim>\<open>      <xs:element name="nested2" type="xs:dateTime"/>\<close>
  \<^verbatim>\<open>    </xs:sequence></xs:complexType></xs:element>\<close>
\<close>

definition field1 :: node where
  "field1 = Obj [(''name'', Text ''field1''), (''type'', Text ''xs:string'')]"

definition field2 :: node where
  "field2 = Obj [(''name'', Text ''field2''), (''type'', Text ''xs:int'')]"

definition field3 :: node where
  "field3 = Obj [(''name'', Text ''field3''), (''type'', Text ''xs:boolean'')]"

definition field3Nested :: node where
  "field3Nested =
     Obj [(''xs:complexType'', Obj [(''xs:sequence'', Obj [(''xs:element'', Arr
            [Obj [(''name'', Text ''nested1''), (''type'', Text ''xs:boolean'')],
             Obj [(''name'', Text ''nested2''), (''type'', Text ''xs:dateTime'')]])])]),
          (''name'', Text ''field3'')]"

definition mixedType :: node where
  "mixedType =
     Obj [(''xs:sequence'', Obj
            [(''xs:element'', field1),
             (''xs:choice'', Obj [(''xs:element'', Arr [field2, field3])])]),
          (''name'', Text ''MixedType'')]"

definition nestedChoiceType :: node where
  "nestedChoiceType =
     Obj [(''xs:sequence'', Obj
            [(''xs:element'', field1),
             (''xs:choice'', Obj [(''xs:element'', Arr [field2, field3Nested])])]),
          (''name'', Text ''NestedChoiceType'')]"

text \<open>
  The root of Scenario 5: a second namespace besides the XSD namespace, which is
  bound to \<open>xsd\<close>.
\<close>

definition scenario5Root :: node where
  "scenario5Root =
     Obj [(''xsd:element'', Obj [(''name'', Text ''melding''), (''type'', Text ''xsd:string'')]),
          (''xmlns:skatt'', Text ''http://www.skatteetaten.no/xsd''),
          (''xmlns:xsd'', Text ''http://www.w3.org/2001/XMLSchema'')]"

text \<open>What the properties read of a parsed complex type: lengths of \<open>content\<close> and \<open>choice\<close>.\<close>

definition contentAndChoiceLength :: "XsdComplexType \<Rightarrow> nat \<times> nat option" where
  "contentAndChoiceLength c = (length (ct_content c), map_option length (ct_choice c))"

text \<open>
  The walk of the reference collector, as the specification words it: every element
  occurrence found in \<open>sequence\<close>, \<open>choice\<close>, \<open>all\<close> and \<open>extension.sequence\<close> of a
  complex type, in that order, each element followed by the occurrences inside its
  inline complex type.
\<close>

fun elementOccurrences :: "XsdElement list \<Rightarrow> XsdElement list"
  and elementOccurrence :: "XsdElement \<Rightarrow> XsdElement list"
  and complexTypeOccurrences :: "XsdComplexType \<Rightarrow> XsdElement list"
  and extensionOccurrences :: "XsdExtension \<Rightarrow> XsdElement list"
where
  "elementOccurrences [] = []"
| "elementOccurrences (el # els) = elementOccurrence el @ elementOccurrences els"
| "elementOccurrence (XsdElement n t c s a mi ma isRef r nl) =
     XsdElement n t c s a mi ma isRef r nl #
       (case c of Some complexType \<Rightarrow> complexTypeOccurrences complexType | None \<Rightarrow> [])"
| "complexTypeOccurrences (XsdComplexType n sq ch al a ex co) =
     (case sq of Some es \<Rightarrow> elementOccurrences es | None \<Rightarrow> [])
     @ (case ch of Some es \<Rightarrow> elementOccurrences es | None \<Rightarrow> [])
     @ (case al of Some es \<Rightarrow> elementOccurrences es | None \<Rightarrow> [])
     @ (case ex of Some extension \<Rightarrow> extensionOccurrences extension | None \<Rightarrow> [])"
| "extensionOccurrences (XsdExtension b sq a) =
     (case sq of Some es \<Rightarrow> elementOccurrences es | None \<Rightarrow> [])"

definition referenceWalk :: "XsdComplexType list \<Rightarrow> XsdElement list" where
  "referenceWalk cts = concat (map complexTypeOccurrences cts)"

definition isReference :: "XsdElement \<Rightarrow> bool" where
  "isReference el = (el_isRef el = Some True)"

text \<open>
  Two complex types that refer to one global element, the second from inside an
  inline complex type:
  \<^verbatim>\<open><xs:complexType name="TestType"><xs:sequence>\<close>
  \<^verbatim>\<open>  <xs:element name="field1" type="xs:string"/>\<close>
  \<^verbatim>\<open>  <xs:element ref="globalElement" minOccurs="0"/>\<close>
  \<^verbatim>\<open></xs:sequence></xs:complexType>\<close>
  \<^verbatim>\<open><xs:complexType name="OtherType"><xs:sequence>\<close>
  \<^verbatim>\<open>  <xs:element name="wrapper"><xs:complexType><xs:sequence>\<close>
  \<^verbatim>\<open>    <xs:element ref="globalElement"/>\<close>
  \<^verbatim>\<open>  </xs:sequence></xs:complexType></xs:element>\<close>
  \<^verbatim>\<open></xs:sequence></xs:complexType>\<close>
\<close>

definition referringTypes :: node where
  "referringTypes =
     Obj [(''xs:complexType'', Arr
       [Obj [(''xs:sequence'', Obj [(''xs:element'', Arr
               [Obj [(''name'', Text ''field1''), (''type'', Text ''xs:string'')],
                Obj [(''ref'', Text ''globalElement''), (''minOccurs'', Text ''0'')]])]),
             (''name'', Text ''TestType'')],
        Obj [(''xs:sequence'', Obj [(''xs:element'', Obj
               [(''xs:complexType'', Obj [(''xs:sequence'', Obj [(''xs:element'',
                   Obj [(''ref'', Text ''globalElement'')])])]),
                (''name'', Text ''wrapper'')])]),
             (''name'', Text ''OtherType'')]])]"

text \<open>The elements of an optional array: none when the field is absent.\<close>

definition optList :: "'a list option \<Rightarrow> 'a list" where
  "optList x = (case x of Some xs \<Rightarrow> xs | None \<Rightarrow> [])"

definition extensionSequence :: "XsdComplexType \<Rightarrow> XsdElement list" where
  "extensionSequence c =
     (case ct_extension c of Some x \<Rightarrow> optList (ext_sequence x) | None \<Rightarrow> [])"

text \<open>
  The three \<open>if\<close> blocks of \<open>parseComplexType\<close> for \<open>sequence\<close>, \<open>choice\<close> and \<open>all\<close>
  (\<open>setter\<close> is the assignment to the field), and its block for the extension.
\<close>

definition compositorStage ::
  "(XsdElement list \<Rightarrow> XsdComplexType \<Rightarrow> XsdComplexType) \<Rightarrow> node option \<Rightarrow> XsdComplexType
     \<Rightarrow> string option \<Rightarrow> error + XsdComplexType" where
  "compositorStage setter x c0 p =
     (case x of
        Some sq \<Rightarrow>
          (if truthy sq then
             andThen (parseNestedElements sq c0 p) (\<lambda>(parsed, c).
               Inr (push_content parsed (setter parsed c)))
           else Inr c0)
      | None \<Rightarrow> Inr c0)"

definition extensionStage ::
  "node \<Rightarrow> XsdComplexType \<Rightarrow> string option \<Rightarrow> error + XsdComplexType option" where
  "extensionStage ex c3 p =
     andThen (parseAttributes ex p) (\<lambda>extAttributes.
     andThen (getTypeValue ex ''sequence'' p) (\<lambda>extSequence.
     andThen (case extSequence of
                Some es \<Rightarrow>
                  (if truthy es then
                     andThen (parseNestedElements es c3 p) (\<lambda>(parsed, c).
                       Inr (push_content parsed
                         (set_extension
                            (XsdExtension
                               (if truthyS (attr ex ''base'')
                                then Some (stripNamespace (the (attr ex ''base''))) else None)
                               (Some parsed) extAttributes) c)))
                   else Inr (set_extension
                               (XsdExtension
                                  (if truthyS (attr ex ''base'')
                                   then Some (stripNamespace (the (attr ex ''base''))) else None)
                                  None extAttributes) c3))
              | None \<Rightarrow> Inr (set_extension
                           (XsdExtension
                              (if truthyS (attr ex ''base'')
                               then Some (stripNamespace (the (attr ex ''base''))) else None)
                              None extAttributes) c3))
       (\<lambda>c4. Inr (Some (push_attributes extAttributes c4)))))"

text \<open>The extension node that \<open>parseComplexType\<close> reads, if there is one.\<close>

definition extensionNode :: "node \<Rightarrow> string option \<Rightarrow> node option" where
  "extensionNode ct p =
     (case (getTypeValue ct ''complexContent'' p, getTypeValue ct ''simpleContent'' p) of
        (Inr complexContent, Inr simpleContent) \<Rightarrow>
          (case (case complexContent of
                   Some cc \<Rightarrow> (if truthy cc then Some cc else simpleContent)
                 | None \<Rightarrow> simpleContent) of
             Some cont \<Rightarrow>
               (if truthy cont then
                  (case getTypeValue cont ''extension'' p of
                     Inr (Some ex) \<Rightarrow> (if truthy ex then Some ex else None)
                   | _ \<Rightarrow> None)
                else None)
           | None \<Rightarrow> None)
      | _ \<Rightarrow> None)"

text \<open>A compositor node (if present and truthy) has no \<open>choice\<close> child.\<close>

definition quiet :: "node option \<Rightarrow> string option \<Rightarrow> bool" where
  "quiet x p = (case x of
                  Some sq \<Rightarrow> (if truthy sq then getAsArray sq ''choice'' p = Inr [] else True)
                | None \<Rightarrow> True)"

definition compositorWithoutChoice :: "node \<Rightarrow> string \<Rightarrow> string option \<Rightarrow> bool" where
  "compositorWithoutChoice parent key p =
     (case getTypeValue parent key p of Inr x \<Rightarrow> quiet x p | Inl e \<Rightarrow> True)"

text \<open>
  No choice is nested in a compositor of the complex type: none in its sequence, none
  in its \<open>all\<close>, none in the sequence of its extension.
\<close>

definition noNestedChoice :: "node \<Rightarrow> string option \<Rightarrow> bool" where
  "noNestedChoice ct p =
     (compositorWithoutChoice ct ''sequence'' p \<and> compositorWithoutChoice ct ''all'' p \<and>
      (case extensionNode ct p of
         Some ex \<Rightarrow> compositorWithoutChoice ex ''sequence'' p
       | None \<Rightarrow> True))"

text \<open>
  A complex type that has a choice and a sequence of its own, the choice first in the
  markup:
  \<^verbatim>\<open><xs:complexType name="Both">\<close>
  \<^verbatim>\<open>  <xs:choice><xs:element name="b" type="xs:int"/></xs:choice>\<close>
  \<^verbatim>\<open>  <xs:sequence><xs:element name="a" type="xs:string"/></xs:sequence>\<close>
  \<^verbatim>\<open></xs:complexType>\<close>
\<close>

definition bothType :: node where
  "bothType =
     Obj [(''xs:choice'', Obj [(''xs:element'',
             Obj [(''name'', Text ''b''), (''type'', Text ''xs:int'')])]),
          (''xs:sequence'', Obj [(''xs:element'',
             Obj [(''name'', Text ''a''), (''type'', Text ''xs:string'')])]),
          (''name'', Text ''Both'')]"

text \<open>The concatenation that the invariant of \<open>content\<close> names.\<close>

definition concatenation :: "XsdComplexType \<Rightarrow> XsdElement list" where
  "concatenation c =
     optList (ct_sequence c) @ optList (ct_choice c) @ optList (ct_all c) @ extensionSequence c"

text \<open>The name of an item whose name is truthy.\<close>

definition nameOf :: "('a \<Rightarrow> string option) \<Rightarrow> 'a \<Rightarrow> string" where
  "nameOf nm x = the (nm x)"

text \<open>What \<open>nameToIndex\<close> guarantees: an index it holds is the place of a type of that name.\<close>

definition indexOk :: "('a \<Rightarrow> string option) \<Rightarrow> (string \<rightharpoonup> nat) \<Rightarrow> 'a list \<Rightarrow> bool" where
  "indexOk nm idx items =
     (\<forall>d i. idx d = Some i \<longrightarrow> i < length items \<and> nm (items ! i) = Some d \<and> d \<noteq> [])"

text \<open>
  The state after a visit that returned: \<open>visiting\<close> is as before; \<open>result\<close> has grown
  by named items whose names are new, were not being visited, differ from each other
  and are now in \<open>visited\<close>; the warnings have grown by warnings that name items.
\<close>

definition grows :: "('a \<Rightarrow> string option) \<Rightarrow> 'a list \<Rightarrow> 'a sortState \<Rightarrow> 'a sortState \<Rightarrow> bool" where
  "grows nm items s s' =
     (visiting s' = visiting s \<and>
      (\<exists>new. result s' = result s @ new \<and>
             visited s' = visited s \<union> nameOf nm ` set new \<and>
             set new \<subseteq> set items \<and>
             (\<forall>y\<in>set new. truthyS (nm y)) \<and>
             nameOf nm ` set new \<inter> (visited s \<union> visiting s) = {} \<and>
             distinct (map (nameOf nm) new)) \<and>
      (\<exists>w. warned s' = warned s @ w \<and>
           (\<forall>m\<in>set w. \<exists>y\<in>set items. truthyS (nm y) \<and> m = circularWarning (nameOf nm y))))"



text \<open>
  The output of a sort: only items with a name, no name twice, and every name of an
  item present.
\<close>

definition sortedNamed :: "('a \<Rightarrow> string option) \<Rightarrow> 'a list \<Rightarrow> 'a list \<Rightarrow> bool" where
  "sortedNamed nm items out =
     ((\<forall>x\<in>set out. truthyS (nm x) \<and> x \<in> set items) \<and>
      distinct (map nm out) \<and>
      (\<forall>x\<in>set items. truthyS (nm x) \<longrightarrow> nm x \<in> nm ` set out))"

text \<open>Every warning of a sort is the cycle warning for the name of a named item.\<close>

definition cycleWarnings :: "('a \<Rightarrow> string option) \<Rightarrow> 'a list \<Rightarrow> string list \<Rightarrow> bool" where
  "cycleWarnings nm items w =
     (\<forall>m\<in>set w. \<exists>y\<in>set items. truthyS (nm y) \<and> m = circularWarning (nameOf nm y))"

text \<open>The schema \<open>parseXsd\<close> returns for a document the tokenizer accepts.\<close>

definition parsedSchema :: "node \<Rightarrow> XsdSchema" where
  "parsedSchema document =
     (case snd (parseXsd (\<lambda>xsdContent. Inr document) []) of
        Inr schema \<Rightarrow> schema
      | Inl e \<Rightarrow> emptySchema)"

text \<open>
  Scenario 4: \<open>Derived\<close> extends \<open>Base\<close> and is declared first.

  \<^verbatim>\<open><xs:schema xmlns:xs="http://www.w3.org/2001/XMLSchema">\<close>
  \<^verbatim>\<open>  <xs:complexType name="Derived"><xs:complexContent><xs:extension base="Base">\<close>
  \<^verbatim>\<open>    <xs:sequence><xs:element name="extra" type="xs:string"/></xs:sequence>\<close>
  \<^verbatim>\<open>  </xs:extension></xs:complexContent></xs:complexType>\<close>
  \<^verbatim>\<open>  <xs:complexType name="Base">\<close>
  \<^verbatim>\<open>    <xs:sequence><xs:element name="id" type="xs:string"/></xs:sequence>\<close>
  \<^verbatim>\<open>  </xs:complexType>\<close>
  \<^verbatim>\<open></xs:schema>\<close>
\<close>

definition baseType :: node where
  "baseType =
     Obj [(''name'', Text ''Base''),
          (''xs:sequence'', Obj [(''xs:element'',
             Obj [(''name'', Text ''id''), (''type'', Text ''xs:string'')])])]"


text \<open>
  \<open>Derived\<close> has a field of type \<open>Base\<close> and is declared first; the simple types \<open>A\<close>
  and \<open>B\<close> restrict each other.

  \<^verbatim>\<open><xs:schema xmlns:xs="http://www.w3.org/2001/XMLSchema">\<close>
  \<^verbatim>\<open>  <xs:complexType name="Derived"><xs:sequence>\<close>
  \<^verbatim>\<open>    <xs:element name="base" type="Base" maxOccurs="unbounded"/>\<close>
  \<^verbatim>\<open>  </xs:sequence></xs:complexType>\<close>
  \<^verbatim>\<open>  <xs:complexType name="Base"> ... </xs:complexType>\<close>
  \<^verbatim>\<open>  <xs:simpleType name="A"><xs:restriction base="B"/></xs:simpleType>\<close>
  \<^verbatim>\<open>  <xs:simpleType name="B"><xs:restriction base="A"/></xs:simpleType>\<close>
  \<^verbatim>\<open></xs:schema>\<close>
\<close>

definition fieldReferenceDocument :: node where
  "fieldReferenceDocument =
     Obj [(''xs:schema'', Obj
       [(''xmlns:xs'', Text ''http://www.w3.org/2001/XMLSchema''),
        (''xs:complexType'', Arr
          [Obj [(''name'', Text ''Derived''),
                (''xs:sequence'', Obj [(''xs:element'',
                   Obj [(''name'', Text ''base''), (''type'', Text ''Base''),
                        (''maxOccurs'', Text ''unbounded'')])])],
           baseType]),
        (''xs:simpleType'', Arr
          [Obj [(''name'', Text ''A''), (''xs:restriction'', Obj [(''base'', Text ''B'')])],
           Obj [(''name'', Text ''B''), (''xs:restriction'', Obj [(''base'', Text ''A'')])]])])]"

text \<open>
  A simple type without a name before the simple type \<open>Code\<close>.

  \<^verbatim>\<open><xs:schema xmlns:xs="http://www.w3.org/2001/XMLSchema">\<close>
  \<^verbatim>\<open>  <xs:simpleType><xs:restriction base="xs:string"/></xs:simpleType>\<close>
  \<^verbatim>\<open>  <xs:simpleType name="Code"><xs:restriction base="xs:string"/></xs:simpleType>\<close>
  \<^verbatim>\<open></xs:schema>\<close>
\<close>

definition anonymousDocument :: node where
  "anonymousDocument =
     Obj [(''xs:schema'', Obj
       [(''xmlns:xs'', Text ''http://www.w3.org/2001/XMLSchema''),
        (''xs:simpleType'', Arr
          [Obj [(''xs:restriction'', Obj [(''base'', Text ''xs:string'')])],
           Obj [(''name'', Text ''Code''),
                (''xs:restriction'', Obj [(''base'', Text ''xs:string'')])]])])]"

text \<open>The simple type \<open>A\<close> of the document above, met again while it is being visited.\<close>

definition typeA :: XsdSimpleType where
  "typeA = hd (simpleTypes (parsedSchema fieldReferenceDocument))"

definition visitingA :: "XsdSimpleType sortState" where
  "visitingA = \<lparr>visited = {}, visiting = {''A''}, result = [], warned = []\<rparr>"

text \<open>The names of a sorted array, with the warnings.\<close>

definition sortedNames ::
  "('a \<Rightarrow> string option) \<Rightarrow> (error + 'a list \<times> string list) option
    \<Rightarrow> (error + string option list \<times> string list) option" where
  "sortedNames nm r = map_option (map_sum id (\<lambda>(out, w). (map nm out, w))) r"

text \<open>
  The functions of \<open>change-case\<close> that the naming convention calls return, whatever
  they are given.  Under the convention \<open>original\<close> none is called.
\<close>

definition helpersReturn :: "externals \<Rightarrow> NamingConvention \<Rightarrow> bool" where
  "helpersReturn ext naming =
     (case naming of
        Original \<Rightarrow> True
      | Camel \<Rightarrow> (\<forall>x. \<exists>s. camelCase ext x = Inr s) \<and> (\<forall>x. \<exists>s. pascalCase ext x = Inr s)
      | Pascal \<Rightarrow> (\<forall>x. \<exists>s. pascalCase ext x = Inr s)
      | Kebab \<Rightarrow> (\<forall>x. \<exists>s. kebabCase ext x = Inr s) \<and> (\<forall>x. \<exists>s. pascalCase ext x = Inr s))"

text \<open>
  What a call of \<open>parseNestedElements\<close> does to the parent: nothing when the container
  has no \<open>choice\<close> child; otherwise the field \<open>choice\<close> is an array from then on, with the
  alternatives \<open>extra\<close> pushed.
\<close>

definition pushChoice :: "bool \<Rightarrow> XsdElement list \<Rightarrow> XsdComplexType \<Rightarrow> XsdComplexType" where
  "pushChoice touched extra parent =
     (if touched then set_choice (optList (ct_choice parent) @ extra) parent else parent)"

text \<open>The alternatives of a nested choice that are also pushed to the enclosing list.\<close>

definition hasInlineType :: "XsdElement \<Rightarrow> bool" where
  "hasInlineType choiceElement =
     (case el_complexType choiceElement of Some c \<Rightarrow> objectKeys c > 1 | None \<Rightarrow> False)"

text \<open>
  What \<open>parseNestedElements\<close> makes of a compositor node by itself, whatever parent it
  is given: the list it returns, and the alternatives of nested choices it pushes to
  the field \<open>choice\<close> of the parent.  Both are empty for a node that is absent or falsy,
  which \<open>parseComplexType\<close> skips.
\<close>

definition blankType :: XsdComplexType where
  "blankType = XsdComplexType None None None None [] None []"

definition present :: "node option \<Rightarrow> bool" where
  "present x = (case x of Some n \<Rightarrow> truthy n | None \<Rightarrow> False)"

definition compositorElements :: "node option \<Rightarrow> string option \<Rightarrow> XsdElement list" where
  "compositorElements x p =
     (case x of
        Some n \<Rightarrow>
          (if truthy n then
             (case parseNestedElements n blankType p of
                Inr (parsed, c) \<Rightarrow> parsed
              | Inl e \<Rightarrow> [])
           else [])
      | None \<Rightarrow> [])"

definition nestedAlternatives :: "node option \<Rightarrow> string option \<Rightarrow> XsdElement list" where
  "nestedAlternatives x p =
     (case x of
        Some n \<Rightarrow>
          (if truthy n then
             (case parseNestedElements n blankType p of
                Inr (parsed, c) \<Rightarrow> optList (ct_choice c)
              | Inl e \<Rightarrow> [])
           else [])
      | None \<Rightarrow> [])"

text \<open>The child \<open>getTypeValue\<close> finds, and the sequence node of the extension.\<close>

definition child :: "node \<Rightarrow> string \<Rightarrow> string option \<Rightarrow> node option" where
  "child n key p = (case getTypeValue n key p of Inr x \<Rightarrow> x | Inl e \<Rightarrow> None)"

definition extensionSequenceNode :: "node \<Rightarrow> string option \<Rightarrow> node option" where
  "extensionSequenceNode ct p =
     (case extensionNode ct p of Some ex \<Rightarrow> child ex ''sequence'' p | None \<Rightarrow> None)"

text \<open>Only the field \<open>choice\<close> differs, by the elements \<open>extra\<close> appended.\<close>

definition choiceGrowsBy :: "XsdElement list \<Rightarrow> XsdComplexType \<Rightarrow> XsdComplexType \<Rightarrow> bool" where
  "choiceGrowsBy extra a b =
     (ct_name b = ct_name a \<and> ct_sequence b = ct_sequence a \<and> ct_all b = ct_all a \<and>
      ct_attributes b = ct_attributes a \<and> ct_extension b = ct_extension a \<and>
      ct_content b = ct_content a \<and>
      optList (ct_choice b) = optList (ct_choice a) @ extra)"

text \<open>
  A complex type whose sequence holds a nested choice and that has a choice of its own:
  \<^verbatim>\<open><xs:complexType name="Overwritten">\<close>
  \<^verbatim>\<open>  <xs:sequence>\<close>
  \<^verbatim>\<open>    <xs:element name="s1" type="xs:string"/>\<close>
  \<^verbatim>\<open>    <xs:choice><xs:element name="s2" type="xs:string"/></xs:choice>\<close>
  \<^verbatim>\<open>  </xs:sequence>\<close>
  \<^verbatim>\<open>  <xs:choice><xs:element name="c1" type="xs:string"/></xs:choice>\<close>
  \<^verbatim>\<open></xs:complexType>\<close>
\<close>

definition overwrittenType :: node where
  "overwrittenType =
     Obj [(''name'', Text ''Overwritten''),
          (''xs:sequence'', Obj
             [(''xs:element'', Obj [(''name'', Text ''s1''), (''type'', Text ''xs:string'')]),
              (''xs:choice'', Obj [(''xs:element'',
                 Obj [(''name'', Text ''s2''), (''type'', Text ''xs:string'')])])]),
          (''xs:choice'', Obj [(''xs:element'',
             Obj [(''name'', Text ''c1''), (''type'', Text ''xs:string'')])])]"




section \<open>Properties\<close>

subsection \<open>Namespace resolver\<close>

lemma fold_namespaceStep_prefix:
  "list_all (\<lambda>kv. isNamespaceKey (fst kv) \<longrightarrow> snd kv \<noteq> Text XSD_NAMESPACE_URI) kvs \<Longrightarrow>
   ctx_xsdPrefix (fold namespaceStep kvs ctx) = ctx_xsdPrefix ctx"
  by (induction kvs arbitrary: ctx) (auto simp: namespaceStep_def Let_def)

lemma fold_namespaceStep_keep:
  "list_all (\<lambda>kv. fst kv \<noteq> ''xmlns'' \<and>
               (isNamespaceKey (fst kv) \<longrightarrow> prefixOfKey (fst kv) \<noteq> Some [])) kvs \<Longrightarrow>
   namespaceMappings (fold namespaceStep kvs ctx) (Some []) = namespaceMappings ctx (Some [])"
  by (induction kvs arbitrary: ctx) (auto simp: namespaceStep_def Let_def)

lemma fold_namespaceStep_default:
  "map_of kvs ''xmlns'' = Some u \<Longrightarrow> distinct (map fst kvs) \<Longrightarrow>
   list_all (\<lambda>kv. isNamespaceKey (fst kv) \<longrightarrow> prefixOfKey (fst kv) \<noteq> Some []) kvs \<Longrightarrow>
   namespaceMappings (fold namespaceStep kvs ctx) (Some []) = Some u"
proof (induction kvs arbitrary: ctx)
  case Nil
  then show ?case by simp
next
  case (Cons kv kvs)
  show ?case
  proof (cases "fst kv = ''xmlns''")
    case True
    with Cons.prems have u: "snd kv = u" and notin: "''xmlns'' \<notin> fst ` set kvs"
      by (cases kv; auto)+
    have "list_all (\<lambda>kv. fst kv \<noteq> ''xmlns'' \<and>
            (isNamespaceKey (fst kv) \<longrightarrow> prefixOfKey (fst kv) \<noteq> Some [])) kvs"
      using Cons.prems(3) notin by (force simp: list_all_iff)
    then have k: "\<And>c. namespaceMappings (fold namespaceStep kvs c) (Some []) =
                      namespaceMappings c (Some [])"
      by (rule fold_namespaceStep_keep)
    have "namespaceMappings (namespaceStep kv ctx) (Some []) = Some u"
      using True u by (simp add: namespaceStep_def Let_def)
    with k show ?thesis by simp
  next
    case False
    with Cons.prems have "map_of kvs ''xmlns'' = Some u" "distinct (map fst kvs)"
      "list_all (\<lambda>kv. isNamespaceKey (fst kv) \<longrightarrow> prefixOfKey (fst kv) \<noteq> Some []) kvs"
      by (cases kv; auto)+
    from Cons.IH[OF this] show ?thesis by simp
  qed
qed

text \<open>
  C10.  When the root binds the XSD namespace URI only through the default declaration
  \<open>xmlns\<close>, \<open>extractNamespaces\<close> records the URI under the empty prefix and leaves
  \<open>xsdPrefix\<close> undefined; \<open>parseXsd\<close> then prints the prefix warning and builds the
  schema with no prefix, so that only unprefixed tag names are found.
\<close>

theorem default_namespace_gives_no_prefix:
  assumes "bound_only_by_default kvs"
  shows "namespaceMappings (extractNamespaces (Obj kvs)) (Some []) = Some (Text XSD_NAMESPACE_URI)
       \<and> ctx_xsdPrefix (extractNamespaces (Obj kvs)) = None
       \<and> (\<forall>parse xsdContent parsed.
            parse xsdContent = Inr parsed \<and> fst (findSchemaElement parsed) = Obj kvs \<longrightarrow>
            parseXsd parse xsdContent =
              (snd (findSchemaElement parsed) @ [prefixWarning], buildSchema (Obj kvs) None))"
proof -
  from assms have a: "map_of kvs ''xmlns'' = Some (Text XSD_NAMESPACE_URI)" "distinct (map fst kvs)"
    and b: "list_all (\<lambda>kv. isNamespaceKey (fst kv) \<longrightarrow> prefixOfKey (fst kv) \<noteq> Some []) kvs"
    and c: "list_all (\<lambda>kv. isNamespaceKey (fst kv) \<longrightarrow> snd kv \<noteq> Text XSD_NAMESPACE_URI) kvs"
    by (auto simp: bound_only_by_default_def list_all_iff)
  have m: "namespaceMappings (extractNamespaces (Obj kvs)) (Some []) = Some (Text XSD_NAMESPACE_URI)"
    using fold_namespaceStep_default[OF a b] by simp
  have p: "ctx_xsdPrefix (extractNamespaces (Obj kvs)) = None"
    using fold_namespaceStep_prefix[OF c] by simp
  have "parseXsd parse xsdContent =
          (snd (findSchemaElement parsed) @ [prefixWarning], buildSchema (Obj kvs) None)"
    if "parse xsdContent = Inr parsed" "fst (findSchemaElement parsed) = Obj kvs"
    for parse xsdContent parsed
    using p that by (simp add: parseXsd_def Let_def orUndefined_def)
  with m p show ?thesis by blast
qed

theorem default_namespace_gives_no_prefix_witness:
  "bound_only_by_default noPrefixRoot
   \<and> namespaceMappings (extractNamespaces (Obj noPrefixRoot)) (Some []) =
       Some (Text XSD_NAMESPACE_URI)
   \<and> ctx_xsdPrefix (extractNamespaces (Obj noPrefixRoot)) = None
   \<and> fst (parseXsd (\<lambda>_. Inr noPrefixDocument) []) = [prefixWarning]
   \<and> map el_name (elements (projr (snd (parseXsd (\<lambda>_. Inr noPrefixDocument) [])))) =
       [Some ''Test'']"
proof -
  have h: "bound_only_by_default noPrefixRoot"
    by (simp add: bound_only_by_default_def noPrefixRoot_def XSD_NAMESPACE_URI_def
          isNamespaceKey_def startsWith_def)
  have f: "findSchemaElement noPrefixDocument = (Obj noPrefixRoot, [])"
    by (simp add: noPrefixDocument_def isSchemaKey_def)
  have e: "map el_name (elements (projr (buildSchema (Obj noPrefixRoot) None))) = [Some ''Test'']"
    by code_simp
  note t = default_namespace_gives_no_prefix[OF h]
  from t have q: "\<forall>parse xsdContent parsed.
            parse xsdContent = Inr parsed \<and> fst (findSchemaElement parsed) = Obj noPrefixRoot \<longrightarrow>
            parseXsd parse xsdContent =
              (snd (findSchemaElement parsed) @ [prefixWarning], buildSchema (Obj noPrefixRoot) None)"
    by blast
  have "parseXsd (\<lambda>_. Inr noPrefixDocument) [] =
          (snd (findSchemaElement noPrefixDocument) @ [prefixWarning],
           buildSchema (Obj noPrefixRoot) None)"
    using q[rule_format, where parse="\<lambda>_. Inr noPrefixDocument" and xsdContent="[]"
              and parsed=noPrefixDocument] f by simp
  then have p: "parseXsd (\<lambda>_. Inr noPrefixDocument) [] =
          ([prefixWarning], buildSchema (Obj noPrefixRoot) None)"
    using f by simp
  from t have "namespaceMappings (extractNamespaces (Obj noPrefixRoot)) (Some []) =
                 Some (Text XSD_NAMESPACE_URI)"
    and "ctx_xsdPrefix (extractNamespaces (Obj noPrefixRoot)) = None"
    by blast+
  with h e p show ?thesis by simp
qed

subsection \<open>Mapper: optional attributes, cardinality of elements\<close>

lemma andThen_eq_Inr:
  "(andThen m f = Inr y) = (\<exists>x. m = Inr x \<and> f x = Inr y)"
  by (cases m) (auto simp: andThen_def)

lemma parseAttribute_use:
  "parseAttribute n p = Inr a \<Longrightarrow>
   at_use a = (if truthyS (attr n ''use'') then attr n ''use'' else Some ''optional'') \<and>
   at_default a = attr n ''default'' \<and> at_fixed a = attr n ''fixed''"
  by (auto simp: parseAttribute_def andThen_eq_Inr)

text \<open>
  C7 (as stated) fails: the attribute
  \<open>name="status" type="xs:string" use="required" default="active"\<close> has a default
  value, and the field \<open>mapAttribute\<close> produces for it is not optional.
\<close>

theorem required_attribute_with_default_not_optional:
  "andThen (parseAttribute requiredDefaultAttribute (Some ''xs''))
     (\<lambda>a. if at_default a = Some ''active''
          then mapAttribute sampleExternals a Original emptySchema else Inl TypeError) =
   Inr \<lparr>ma_name = Some ''status'', ma_tsType = ''string'', ma_zodValidator = ''z.string()'',
        ma_optional = False\<rparr>"
  by code_simp

text \<open>
  C7 (amended).  The field \<open>mapAttribute\<close> produces is optional exactly when \<open>use\<close> is
  absent or \<open>optional\<close>; the values \<open>default\<close> and \<open>fixed\<close> have no part in the
  result.  (The parser stores \<open>optional\<close> for an attribute written without \<open>use\<close>.)
\<close>

theorem mapAttribute_optional_by_use:
  "mapAttribute ext a naming schema = Inr m \<Longrightarrow>
     ma_optional m = (at_use a = None \<or> at_use a = Some ''optional'') \<and>
     mapAttribute ext (a\<lparr>at_default := d, at_fixed := f\<rparr>) naming schema = Inr m"
  by (auto simp: mapAttribute_def andThen_eq_Inr Let_def split: option.splits)

theorem mapAttribute_optional_by_use_witness:
  "andThen (parseAttribute plainDefaultAttribute (Some ''xs''))
     (\<lambda>a. mapAttribute sampleExternals a Original emptySchema) =
   Inr \<lparr>ma_name = Some ''status'', ma_tsType = ''string'', ma_zodValidator = ''z.string()'',
        ma_optional = True\<rparr>
   \<and> ma_optional \<lparr>ma_name = Some ''status'', ma_tsType = ''string'',
                    ma_zodValidator = ''z.string()'', ma_optional = True\<rparr> =
       (at_use \<lparr>at_name = Some ''status'', at_type = Some ''xs:string'',
                 at_use = Some ''optional'', at_default = Some ''active'', at_fixed = None,
                 at_simpleType = None\<rparr> = None
        \<or> at_use \<lparr>at_name = Some ''status'', at_type = Some ''xs:string'',
                 at_use = Some ''optional'', at_default = Some ''active'', at_fixed = None,
                 at_simpleType = None\<rparr> = Some ''optional'')
   \<and> mapAttribute sampleExternals
         \<lparr>at_name = Some ''status'', at_type = Some ''xs:string'',
           at_use = Some ''optional'', at_default = None, at_fixed = Some ''1.0'',
           at_simpleType = None\<rparr> Original emptySchema =
       Inr \<lparr>ma_name = Some ''status'', ma_tsType = ''string'', ma_zodValidator = ''z.string()'',
            ma_optional = True\<rparr>"
proof -
  let ?a = "\<lparr>at_name = Some ''status'', at_type = Some ''xs:string'',
             at_use = Some ''optional'', at_default = Some ''active'', at_fixed = None,
             at_simpleType = None\<rparr>"
  let ?m = "\<lparr>ma_name = Some ''status'', ma_tsType = ''string'',
             ma_zodValidator = ''z.string()'', ma_optional = True\<rparr>"
  have p: "parseAttribute plainDefaultAttribute (Some ''xs'') = Inr ?a"
    by code_simp
  have h: "mapAttribute sampleExternals ?a Original emptySchema = Inr ?m"
    by code_simp
  from mapAttribute_optional_by_use[OF h, where d=None and f="Some ''1.0''"] p h
  show ?thesis by simp
qed

lemma andThen_returns:
  "\<exists>x. m = Inr x \<Longrightarrow> (\<And>x. \<exists>y. f x = Inr y) \<Longrightarrow> \<exists>y. andThen m f = Inr y"
  by (auto simp: andThen_def)

lemma applyNaming_returns: "helpersReturn ext naming \<Longrightarrow> \<exists>s. applyNaming ext n naming = Inr s"
  by (cases naming) (auto simp: helpersReturn_def applyNaming_def intro!: andThen_returns)

lemma getTypeName_returns: "helpersReturn ext naming \<Longrightarrow> \<exists>s. getTypeName ext n naming = Inr s"
  by (cases naming) (auto simp: helpersReturn_def getTypeName_def intro!: andThen_returns)

lemma getSchemaName_returns: "helpersReturn ext naming \<Longrightarrow> \<exists>s. getSchemaName ext n naming = Inr s"
  by (cases naming) (auto simp: helpersReturn_def getSchemaName_def intro!: andThen_returns)

lemma mapNamedType_returns:
  "helpersReturn ext naming \<Longrightarrow> \<exists>m. mapNamedType ext t naming schema = Inr m"
  unfolding mapNamedType_def
  by (auto split: option.splits intro!: andThen_returns getTypeName_returns getSchemaName_returns)

lemma mapAttribute_returns:
  "helpersReturn ext naming \<Longrightarrow> \<exists>m. mapAttribute ext a naming schema = Inr m"
  unfolding mapAttribute_def Let_def
  by (auto split: option.splits intro!: andThen_returns applyNaming_returns mapNamedType_returns)

lemma mapAttributes_returns:
  "helpersReturn ext naming \<Longrightarrow> \<exists>m. mapAttributes ext as naming schema = Inr m"
  by (induction as) (auto intro!: andThen_returns mapAttribute_returns)

lemma mapper_returns:
  "helpersReturn ext naming \<Longrightarrow> \<exists>m. mapElement ext e naming schema = Inr m"
  "helpersReturn ext naming \<Longrightarrow> \<exists>m. elementTypeMapping ext e naming schema = Inr m"
  "helpersReturn ext naming \<Longrightarrow> \<exists>m. mapElements ext es naming schema = Inr m"
  "helpersReturn ext naming \<Longrightarrow> \<exists>m. mapComplexType ext c naming schema = Inr m"
proof (induction ext e naming schema and ext e naming schema and ext es naming schema
         and ext c naming schema
       rule: mapElement_elementTypeMapping_mapElements_mapComplexType.induct)
  case (1 ext n t c s a mi ma r rf nl naming schema)
  from 1(2) obtain name where name: "applyNaming ext n naming = Inr name"
    using applyNaming_returns by blast
  from 1(1)[OF name 1(2)] obtain tm where
    "elementTypeMapping ext (XsdElement n t c s a mi ma r rf nl) naming schema = Inr tm"
    by blast
  with name show ?case
    by (simp del: elementTypeMapping.simps)
next
  case (2 ext n t c s a mi ma r rf nl naming schema)
  show ?case
  proof (cases c)
    case None
    with 2(2) show ?thesis
      by (auto split: option.splits intro!: mapNamedType_returns)
  next
    case (Some complexType)
    from 2(1)[OF Some 2(2)] obtain m where "mapComplexType ext complexType naming schema = Inr m"
      by blast
    with Some show ?thesis by simp
  qed
next
  case (3 ext naming schema)
  then show ?case by simp
next
  case (4 ext el els naming schema)
  from 4(1)[OF 4(3)] obtain x where x: "mapElement ext el naming schema = Inr x" by blast
  from 4(2)[OF x 4(3)] obtain xs where "mapElements ext els naming schema = Inr xs" by blast
  with x show ?case by simp
next
  case (5 ext n sq ch al a ex co naming schema)
  from 5(1)[OF 5(2)] obtain elems where e: "mapElements ext co naming schema = Inr elems"
    by blast
  from mapAttributes_returns[OF 5(2)] obtain attrs where
    a: "mapAttributes ext a naming schema = Inr attrs" by blast
  from getTypeName_returns[OF 5(2)] obtain tn where t: "getTypeName ext n naming = Inr tn"
    by blast
  from getSchemaName_returns[OF 5(2)] obtain sn where s: "getSchemaName ext n naming = Inr sn"
    by blast
  from e a t s show ?case by (simp add: Let_def)
qed

text \<open>
  C8.  \<open>mapElement\<close> returns a field for every element when the case functions of the
  naming convention return.  The field it returns is optional exactly when \<open>minOccurs\<close>
  is \<open>0\<close>, and is an array exactly when \<open>maxOccurs\<close> is \<open>unbounded\<close> or a number above
  \<open>1\<close>; an array has the TypeScript type followed by \<open>[]\<close> and the validator inside
  \<open>z.array(...)\<close>.  Each of the two is decided by its own attribute, so they combine.
\<close>

theorem mapElement_cardinality:
  "(helpersReturn ext naming \<longrightarrow> (\<exists>m. mapElement ext e naming schema = Inr m)) \<and>
   (\<forall>m. mapElement ext e naming schema = Inr m \<longrightarrow>
     (\<exists>typeMapping. elementTypeMapping ext e naming schema = Inr typeMapping \<and>
        me_optional m = (el_minOccurs e = Some (Number 0)) \<and>
        me_isArray m = (el_maxOccurs e = Some Unbounded \<or>
                       (\<exists>n. el_maxOccurs e = Some (MaxNumber (Number n)) \<and> 1 < n)) \<and>
        me_tsType m = (if me_isArray m then tsType typeMapping @ ''[]'' else tsType typeMapping) \<and>
        me_zodValidator m = (if me_isArray m then ''z.array('' @ zodValidator typeMapping @ '')''
                             else zodValidator typeMapping)))"
proof (intro conjI impI allI)
  assume "helpersReturn ext naming"
  then show "\<exists>m. mapElement ext e naming schema = Inr m"
    by (rule mapper_returns(1))
next
  fix m
  assume a: "mapElement ext e naming schema = Inr m"
  obtain n t c s at mi ma r rf nl where e: "e = XsdElement n t c s at mi ma r rf nl"
    by (cases e)
  from a e obtain name typeMapping where
    tmap: "elementTypeMapping ext e naming schema = Inr typeMapping" and
    m: "m = finishElement name (isOptionalOccurs mi) (isArrayOccurs ma) typeMapping"
    by (auto simp: andThen_eq_Inr simp del: elementTypeMapping.simps)
  have arr: "isArrayOccurs ma = (ma = Some Unbounded \<or>
               (\<exists>k. ma = Some (MaxNumber (Number k)) \<and> 1 < k))"
    by (auto simp: isArrayOccurs_def split: option.splits maxOccurs.splits number.splits)
  show "\<exists>typeMapping. elementTypeMapping ext e naming schema = Inr typeMapping \<and>
        me_optional m = (el_minOccurs e = Some (Number 0)) \<and>
        me_isArray m = (el_maxOccurs e = Some Unbounded \<or>
                       (\<exists>n. el_maxOccurs e = Some (MaxNumber (Number n)) \<and> 1 < n)) \<and>
        me_tsType m = (if me_isArray m then tsType typeMapping @ ''[]'' else tsType typeMapping) \<and>
        me_zodValidator m = (if me_isArray m then ''z.array('' @ zodValidator typeMapping @ '')''
                             else zodValidator typeMapping)"
    using tmap m e arr
    by (auto simp: finishElement_def isOptionalOccurs_def Let_def
             simp del: elementTypeMapping.simps)
qed

theorem mapElement_cardinality_witness:
  "helpersReturn sampleExternals Original
   \<and> andThen (parseElement optionalArrayElement (Some ''xs''))
       (\<lambda>e. mapElement sampleExternals (the e) Original emptySchema) =
     Inr \<lparr>me_name = Some ''item'', me_tsType = ''string[]'',
          me_zodValidator = ''z.array(z.string())'', me_optional = True, me_isArray = True\<rparr>
   \<and> elementTypeMapping sampleExternals
        (XsdElement (Some ''item'') (Some ''string'') None None [] (Some (Number 0))
           (Some Unbounded) (Some False) None (Some False)) Original emptySchema =
       Inr \<lparr>tsType = ''string'', zodValidator = ''z.string()''\<rparr>"
proof -
  let ?e = "XsdElement (Some ''item'') (Some ''string'') None None [] (Some (Number 0))
              (Some Unbounded) (Some False) None (Some False)"
  let ?m = "\<lparr>me_name = Some ''item'', me_tsType = ''string[]'',
             me_zodValidator = ''z.array(z.string())'', me_optional = True, me_isArray = True\<rparr>"
  note t = mapElement_cardinality[of sampleExternals Original ?e emptySchema]
  have g: "helpersReturn sampleExternals Original"
    by (simp add: helpersReturn_def)
  have p: "parseElement optionalArrayElement (Some ''xs'') = Inr (Some ?e)"
    by code_simp
  have h: "mapElement sampleExternals ?e Original emptySchema = Inr ?m"
    by code_simp
  from t g have "\<exists>m. mapElement sampleExternals ?e Original emptySchema = Inr m"
    by blast
  from t h obtain typeMapping where
    t: "elementTypeMapping sampleExternals ?e Original emptySchema = Inr typeMapping"
    and ts: "me_tsType ?m = (if me_isArray ?m then tsType typeMapping @ ''[]'' else tsType typeMapping)"
    and zs: "me_zodValidator ?m = (if me_isArray ?m then ''z.array('' @ zodValidator typeMapping @ '')''
                             else zodValidator typeMapping)"
    by blast
  from ts zs have "typeMapping = \<lparr>tsType = ''string'', zodValidator = ''z.string()''\<rparr>"
    by (cases typeMapping) simp
  with t p h g show ?thesis by simp
qed

subsection \<open>Schema model builder: text where an element is expected\<close>

text \<open>
  C3 fails on the code.  The document \<open>annotatedDocument\<close> tokenizes, and \<open>parseXsd\<close>
  throws: \<open>parseSimpleTypesFromAnnotation\<close> passes the text of the documentation
  element to \<open>getAsArray\<close>, where \<open>in\<close> applied to a string is a \<open>TypeError\<close>.
\<close>

theorem parseXsd_throws_on_documentation_text:
  "parseXsd (\<lambda>xsdContent. Inr annotatedDocument) [] = ([], Inl TypeError)"
  by code_simp

subsection \<open>Namespace agnosticism\<close>

text \<open>
  C4 fails on the code.  Scenario 5 holds as far as the prefix goes (\<open>xsdPrefix\<close> is
  \<open>xsd\<close>), but \<open>parseAttributes\<close> stores the \<open>type\<close> of an attribute with its prefix,
  where \<open>parseElement\<close> strips it: the same schema parsed with the prefix \<open>xs\<close>, with
  \<open>xsd\<close> and with no prefix gives three different attribute types.
\<close>

theorem attribute_type_depends_on_prefix:
  "ctx_xsdPrefix (extractNamespaces scenario5Root) = Some ''xsd''
   \<and> snd (parseXsd (\<lambda>xsdContent. Inr (attributeDocument ''xs'')) []) =
       Inr \<lparr>targetNamespace = None, elementFormDefault = None, elements = [],
            complexTypes =
              [XsdComplexType (Some ''T'') None None None
                 [\<lparr>at_name = Some ''id'', at_type = Some ''xs:string'',
                    at_use = Some ''optional'', at_default = None,
                    at_fixed = None, at_simpleType = None\<rparr>]
                 None []],
            simpleTypes = []\<rparr>
   \<and> snd (parseXsd (\<lambda>xsdContent. Inr (attributeDocument ''xsd'')) []) =
       Inr \<lparr>targetNamespace = None, elementFormDefault = None, elements = [],
            complexTypes =
              [XsdComplexType (Some ''T'') None None None
                 [\<lparr>at_name = Some ''id'', at_type = Some ''xsd:string'',
                    at_use = Some ''optional'', at_default = None,
                    at_fixed = None, at_simpleType = None\<rparr>]
                 None []],
            simpleTypes = []\<rparr>
   \<and> snd (parseXsd (\<lambda>xsdContent. Inr attributeDocumentNoPrefix) []) =
       Inr \<lparr>targetNamespace = None, elementFormDefault = None, elements = [],
            complexTypes =
              [XsdComplexType (Some ''T'') None None None
                 [\<lparr>at_name = Some ''id'', at_type = Some ''string'',
                    at_use = Some ''optional'', at_default = None,
                    at_fixed = None, at_simpleType = None\<rparr>]
                 None []],
            simpleTypes = []\<rparr>"
  by code_simp

subsection \<open>A choice nested in a sequence\<close>

lemma objectKeys_more_than_one: "1 < objectKeys c"
  by (simp add: objectKeys_def)

text \<open>
  C5 (as stated) fails: for \<open>MixedType\<close>, a sequence of one direct element and a choice
  of two alternatives, \<open>content\<close> has length 1, not 2; \<open>choice\<close> has the two
  alternatives.
\<close>

theorem mixed_sequence_and_choice_content_length:
  "map_sum id (map_option contentAndChoiceLength)
     (parseComplexType mixedType (Some ''xs'') (Some ''MixedType'')) = Inr (Some (1, Some 2))"
  by code_simp

text \<open>
  C5 (amended).  For a complex type whose sequence holds one direct element and one
  choice of two alternatives (and that has no other compositor or extension),
  \<open>parseComplexType\<close> puts into \<open>sequence\<close> and \<open>content\<close> the direct element followed
  by those alternatives that have an inline complex type, and into \<open>choice\<close> both
  alternatives.  So \<open>content\<close> has length 2 when exactly one alternative has an inline
  complex type, and length 1 when neither has.
\<close>

theorem choice_in_sequence_merge:
  assumes "truthy ct" and "parseAttributes ct p = Inr attributes"
    and "getTypeValue ct ''sequence'' p = Inr (Some sq)" and "truthy sq"
    and "getAsArray sq ''element'' p = Inr [e1]"
    and "getAsArray sq ''choice'' p = Inr [ch]"
    and "getAsArray ch ''element'' p = Inr [a1, a2]"
    and "getAsArray ch ''choice'' p = Inr []"
    and "parseElement e1 p = Inr (Some E1)"
    and "parseElement a1 p = Inr (Some A1)"
    and "parseElement a2 p = Inr (Some A2)"
    and "getTypeValue ct ''choice'' p = Inr None"
    and "getTypeValue ct ''all'' p = Inr None"
    and "getTypeValue ct ''complexContent'' p = Inr None"
    and "getTypeValue ct ''simpleContent'' p = Inr None"
  shows "\<exists>c. parseComplexType ct p name = Inr (Some c)
           \<and> ct_content c = E1 # filter (\<lambda>a. el_complexType a \<noteq> None) [A1, A2]
           \<and> ct_sequence c = Some (ct_content c)
           \<and> ct_choice c = Some [A1, A2]"
  using assms objectKeys_more_than_one
  by (auto simp: parseComplexType.simps parseNestedElements.simps parseElementLoop.simps
        parseChoiceLoop.simps Let_def
        mergeChoiceElement_def set_choice_def set_sequence_def push_content_def
        split: option.splits)


theorem choice_in_sequence_merge_witness:
  "getAsArray (Obj [(''xs:element'', field1),
                    (''xs:choice'', Obj [(''xs:element'', Arr [field2, field3Nested])])])
     ''choice'' (Some ''xs'') = Inr [Obj [(''xs:element'', Arr [field2, field3Nested])]]
   \<and> getAsArray (Obj [(''xs:element'', Arr [field2, field3Nested])]) ''element'' (Some ''xs'') =
       Inr [field2, field3Nested]
   \<and> map_sum id (map_option contentAndChoiceLength)
       (parseComplexType nestedChoiceType (Some ''xs'') (Some ''NestedChoiceType'')) =
       Inr (Some (2, Some 2))"
proof -
  let ?p = "Some ''xs''"
  let ?ch = "Obj [(''xs:element'', Arr [field2, field3Nested])]"
  let ?sq = "Obj [(''xs:element'', field1), (''xs:choice'', ?ch)]"
  let ?E1 = "the (projr (parseElement field1 ?p))"
  let ?A1 = "the (projr (parseElement field2 ?p))"
  let ?A2 = "the (projr (parseElement field3Nested ?p))"
  have h1: "truthy nestedChoiceType" by (simp add: nestedChoiceType_def)
  have h2: "parseAttributes nestedChoiceType ?p = Inr []" by code_simp
  have h3: "getTypeValue nestedChoiceType ''sequence'' ?p = Inr (Some ?sq)" by code_simp
  have h4: "truthy ?sq" by simp
  have h5: "getAsArray ?sq ''element'' ?p = Inr [field1]" by code_simp
  have h6: "getAsArray ?sq ''choice'' ?p = Inr [?ch]" by code_simp
  have h7: "getAsArray ?ch ''element'' ?p = Inr [field2, field3Nested]" by code_simp
  have h8: "getAsArray ?ch ''choice'' ?p = Inr []" by code_simp
  have h9: "parseElement field1 ?p = Inr (Some ?E1)" by code_simp
  have h10: "parseElement field2 ?p = Inr (Some ?A1)" by code_simp
  have h11: "parseElement field3Nested ?p = Inr (Some ?A2)" by code_simp
  have h12: "getTypeValue nestedChoiceType ''choice'' ?p = Inr None" by code_simp
  have h13: "getTypeValue nestedChoiceType ''all'' ?p = Inr None" by code_simp
  have h14: "getTypeValue nestedChoiceType ''complexContent'' ?p = Inr None" by code_simp
  have h15: "getTypeValue nestedChoiceType ''simpleContent'' ?p = Inr None" by code_simp
  have n1: "el_complexType ?A1 = None" by code_simp
  have n2: "el_complexType ?A2 \<noteq> None" by code_simp
  from choice_in_sequence_merge[OF h1 h2 h3 h4 h5 h6 h7 h8 h9 h10 h11 h12 h13 h14 h15,
         of "Some ''NestedChoiceType''"]
  obtain c where
    c: "parseComplexType nestedChoiceType ?p (Some ''NestedChoiceType'') = Inr (Some c)"
    and content: "ct_content c = ?E1 # filter (\<lambda>a. el_complexType a \<noteq> None) [?A1, ?A2]"
    and choice: "ct_choice c = Some [?A1, ?A2]"
    by blast
  from content n1 n2 have "length (ct_content c) = 2" by simp
  with c choice have "map_sum id (map_option contentAndChoiceLength)
       (parseComplexType nestedChoiceType ?p (Some ''NestedChoiceType'')) =
       Inr (Some (2, Some 2))"
    by (simp add: contentAndChoiceLength_def)
  with h6 h7 show ?thesis by simp
qed

subsection \<open>Reference collector\<close>

lemma isReference_XsdElement:
  "isReference (XsdElement n t c s a mi ma r rf nl) = (r = Some True)"
  by (simp add: isReference_def)

lemma collect_is_walk:
  "\<forall>acc. collectFromElements es acc =
          acc @ map refElement (filter isReference (elementOccurrences es))"
  "\<forall>acc. collectFromElement e acc =
          acc @ map refElement (filter isReference (elementOccurrence e))"
  "\<forall>acc. collectFromComplexType c acc =
          acc @ map refElement (filter isReference (complexTypeOccurrences c))"
  "\<forall>acc. collectFromExtension x acc =
          acc @ map refElement (filter isReference (extensionOccurrences x))"
proof (induction es and e and c and x
       rule: elementOccurrences_elementOccurrence_complexTypeOccurrences_extensionOccurrences.induct)
  case 1
  show ?case by simp
next
  case (2 el els)
  then show ?case by simp
next
  case (3 n t c s a mi ma isRef r nl)
  show ?case
  proof (cases c)
    case None
    then show ?thesis by (simp add: Let_def isReference_XsdElement)
  next
    case (Some complexType)
    with 3 have "\<forall>acc. collectFromComplexType complexType acc =
          acc @ map refElement (filter isReference (complexTypeOccurrences complexType))"
      by simp
    with Some show ?thesis by (simp add: Let_def isReference_XsdElement)
  qed
next
  case (4 n sq ch al a ex co)
  have sq: "(case sq of Some es \<Rightarrow> collectFromElements es acc | None \<Rightarrow> acc) =
            acc @ map refElement (filter isReference
              (case sq of Some es \<Rightarrow> elementOccurrences es | None \<Rightarrow> []))" for acc
    using 4(1) by (cases sq) simp_all
  have ch: "(case ch of Some es \<Rightarrow> collectFromElements es acc | None \<Rightarrow> acc) =
            acc @ map refElement (filter isReference
              (case ch of Some es \<Rightarrow> elementOccurrences es | None \<Rightarrow> []))" for acc
    using 4(2) by (cases ch) simp_all
  have al: "(case al of Some es \<Rightarrow> collectFromElements es acc | None \<Rightarrow> acc) =
            acc @ map refElement (filter isReference
              (case al of Some es \<Rightarrow> elementOccurrences es | None \<Rightarrow> []))" for acc
    using 4(3) by (cases al) simp_all
  have ex: "(case ex of Some extension \<Rightarrow> collectFromExtension extension acc | None \<Rightarrow> acc) =
            acc @ map refElement (filter isReference
              (case ex of Some extension \<Rightarrow> extensionOccurrences extension | None \<Rightarrow> []))" for acc
    using 4(4) by (cases ex) simp_all
  show ?case
    by (simp only: collectFromComplexType.simps complexTypeOccurrences.simps Let_def
          sq ch al ex filter_append map_append append_assoc) simp
next
  case (5 b sq a)
  then show ?case by (cases sq) simp_all
qed

lemma fold_collect_is_walk:
  "fold collectFromComplexType cts acc =
     acc @ map refElement (filter isReference (concat (map complexTypeOccurrences cts)))"
  by (induction cts arbitrary: acc) (simp_all add: collect_is_walk(3)[rule_format])

lemma parseElement_isRef:
  "parseElement n p = Inr (Some e) \<Longrightarrow>
     el_isRef e = Some (truthyS (el_ref e)) \<and> el_ref e = attr n ''ref''"
  by (auto simp: parseElement.simps andThen_eq_Inr split: if_splits)

text \<open>
  C6.  \<open>collectReferencedElements\<close> returns, in the order of the walk, one element for
  every occurrence with \<open>isRef = true\<close>; that element is marked as a reference and
  named by the \<open>ref\<close> target whenever there is one (the parser sets \<open>isRef\<close> exactly then);
  and nothing is deduplicated: a name occurs in the result as often as it is referred
  to in the walk.
\<close>

theorem collectReferencedElements_is_walk:
  "collectReferencedElements cts = map refElement (filter isReference (referenceWalk cts))
   \<and> (\<forall>e. el_isRef (refElement e) = Some True \<and>
            (truthyS (el_ref e) \<longrightarrow> el_name (refElement e) = el_ref e))
   \<and> (\<forall>t. length (filter (\<lambda>r. el_name r = Some t) (collectReferencedElements cts)) =
            length (filter (\<lambda>e. isReference e \<and> el_name (refElement e) = Some t)
                      (referenceWalk cts)))"
proof -
  have w: "collectReferencedElements cts = map refElement (filter isReference (referenceWalk cts))"
    by (simp add: collectReferencedElements_def referenceWalk_def fold_collect_is_walk)
  have n: "el_isRef (refElement e) = Some True \<and>
           (truthyS (el_ref e) \<longrightarrow> el_name (refElement e) = el_ref e)" for e
    by (cases "el_ref e") (auto simp: refElement_def)
  have c: "length (filter (\<lambda>r. el_name r = Some t) (collectReferencedElements cts)) =
           length (filter (\<lambda>e. isReference e \<and> el_name (refElement e) = Some t)
                     (referenceWalk cts))" for t
    unfolding w by (simp add: filter_map comp_def conj_commute)
  from w n c show ?thesis by blast
qed

theorem collectReferencedElements_is_walk_witness:
  "andThen (parseComplexTypes referringTypes (Some ''xs''))
     (\<lambda>cts. Inr (map el_name (filter isReference (referenceWalk cts)),
                 map el_ref (filter isReference (referenceWalk cts)),
                 length (referenceWalk cts),
                 map el_name (collectReferencedElements cts))) =
   Inr ([None, None], [Some ''globalElement'', Some ''globalElement''], 4,
        [Some ''globalElement'', Some ''globalElement''])
   \<and> andThen (parseComplexTypes referringTypes (Some ''xs''))
     (\<lambda>cts. Inr (length (filter (\<lambda>r. el_name r = Some ''globalElement'')
                            (collectReferencedElements cts)))) = Inr 2"
proof -
  define cts where "cts = projr (parseComplexTypes referringTypes (Some ''xs''))"
  have p: "parseComplexTypes referringTypes (Some ''xs'') = Inr cts"
    unfolding cts_def by code_simp
  have walk: "map el_name (filter isReference (referenceWalk cts)) = [None, None]"
    "map el_ref (filter isReference (referenceWalk cts)) =
       [Some ''globalElement'', Some ''globalElement'']"
    "length (referenceWalk cts) = 4"
    unfolding cts_def by code_simp+
  have names: "map (el_name \<circ> refElement) (filter isReference (referenceWalk cts)) =
       [Some ''globalElement'', Some ''globalElement'']"
    unfolding cts_def by code_simp
  note t = collectReferencedElements_is_walk[of cts]
  from t have eq: "collectReferencedElements cts =
      map refElement (filter isReference (referenceWalk cts))"
    by (rule conjunct1)
  have r: "map el_name (collectReferencedElements cts) =
       [Some ''globalElement'', Some ''globalElement'']"
    unfolding eq map_map by (rule names)
  have "length (filter (\<lambda>r. el_name r = Some ''globalElement'')
          (collectReferencedElements cts)) =
        length (filter (\<lambda>n. n = Some ''globalElement'')
          (map el_name (collectReferencedElements cts)))"
    by (simp only: filter_map comp_def length_map)
  also have "\<dots> = 2"
    unfolding r by simp
  finally have two: "length (filter (\<lambda>r. el_name r = Some ''globalElement'')
          (collectReferencedElements cts)) = 2" .
  show ?thesis
    unfolding p andThen_simps walk r two by (rule conjI; rule refl)
qed

subsection \<open>The flattened content of a complex type\<close>

lemma size_list_member: "x \<in> set xs \<Longrightarrow> size x < size_list size xs"
  by (induction xs) auto

lemma parseNestedElements_quiet:
  "getAsArray sq ''choice'' p = Inr [] \<Longrightarrow>
   parseNestedElements sq c0 p = Inr (parsed, c) \<Longrightarrow> c = c0"
  by (auto simp: parseNestedElements.simps parseChoiceLoop.simps andThen_eq_Inr)


lemma parseComplexType_stages:
  "parseComplexType ct p name =
     (if \<not> truthy ct then Inr None
      else
        andThen (parseAttributes ct p) (\<lambda>attributes.
        andThen (getTypeValue ct ''sequence'' p) (\<lambda>sequence.
        andThen (compositorStage set_sequence sequence
                   (XsdComplexType name None None None attributes None []) p) (\<lambda>c1.
        andThen (getTypeValue ct ''choice'' p) (\<lambda>choice.
        andThen (compositorStage set_choice choice c1 p) (\<lambda>c2.
        andThen (getTypeValue ct ''all'' p) (\<lambda>all.
        andThen (compositorStage set_all all c2 p) (\<lambda>c3.
        andThen (getTypeValue ct ''complexContent'' p) (\<lambda>complexContent.
        andThen (getTypeValue ct ''simpleContent'' p) (\<lambda>simpleContent.
          case (case complexContent of
                  Some cc \<Rightarrow> (if truthy cc then Some cc else simpleContent)
                | None \<Rightarrow> simpleContent) of
            None \<Rightarrow> Inr (Some c3)
          | Some cont \<Rightarrow>
              (if \<not> truthy cont then Inr (Some c3)
               else
                 andThen (getTypeValue cont ''extension'' p) (\<lambda>ext.
                   case ext of
                     None \<Rightarrow> Inr (Some c3)
                   | Some ex \<Rightarrow>
                       (if \<not> truthy ex then Inr (Some c3)
                        else extensionStage ex c3 p)))))))))))))"
  by (subst parseComplexType.simps)
     (simp only: compositorStage_def extensionStage_def Let_def)

lemma set_choice_same: "ct_choice c = Some xs \<Longrightarrow> set_choice xs c = c"
  by (cases c) (simp add: set_choice_def)

lemma set_choice_twice: "set_choice xs (set_choice ys c) = set_choice xs c"
  by (simp add: set_choice_def)

lemma ct_choice_set_choice: "ct_choice (set_choice xs c) = Some xs"
  by (simp add: set_choice_def)

lemma prepare_parent:
  "(if ct_choice parent = None then set_choice [] parent else parent) =
     set_choice (optList (ct_choice parent)) parent"
  by (cases "ct_choice parent") (simp_all add: optList_def set_choice_same)

lemma pushChoice_prepared:
  "\<not> touched \<longrightarrow> extra = [] \<Longrightarrow>
   pushChoice touched extra (set_choice xs parent) = set_choice (xs @ extra) parent"
  by (cases touched) (simp_all add: pushChoice_def set_choice_twice ct_choice_set_choice optList_def)

lemma fold_mergeChoiceElement_Some:
  "fold mergeChoiceElement ces (elems, set_choice xs parent) =
     (elems @ filter hasInlineType ces, set_choice (xs @ ces) parent)"
proof (induction ces arbitrary: elems xs)
  case Nil
  then show ?case by simp
next
  case (Cons ce ces)
  have "mergeChoiceElement ce (elems, set_choice xs parent) =
          (elems @ filter hasInlineType [ce], set_choice (xs @ [ce]) parent)"
    by (simp add: mergeChoiceElement_def Let_def hasInlineType_def ct_choice_set_choice
          set_choice_twice split: option.splits)
  with Cons.IH[of "elems @ filter hasInlineType [ce]" "xs @ [ce]"] show ?case
    by simp
qed

lemma parseChoiceLoop_independent:
  assumes nested: "\<And>ch pa els pa'. ch \<in> set chs \<Longrightarrow>
             parseNestedElements ch pa p = Inr (els, pa') \<Longrightarrow>
             \<exists>touched extra. (\<not> touched \<longrightarrow> extra = []) \<and>
               (\<forall>pb. parseNestedElements ch pb p = Inr (els, pushChoice touched extra pb))"
  shows "parseChoiceLoop chs elems pa p = Inr (els, pa') \<Longrightarrow>
         \<exists>extra. (chs = [] \<longrightarrow> extra = []) \<and>
           (\<forall>pb. parseChoiceLoop chs elems pb p = Inr (els, pushChoice (chs \<noteq> []) extra pb))"
  using nested
proof (induction chs arbitrary: elems pa)
  case Nil
  then show ?case by (simp add: parseChoiceLoop.simps pushChoice_def)
next
  case (Cons ch chs)
  let ?prep = "\<lambda>parent. set_choice (optList (ct_choice parent)) parent"
  from Cons.prems(1) obtain ces parent2 where
    n: "parseNestedElements ch (?prep pa) p = Inr (ces, parent2)" and
    r: "(case fold mergeChoiceElement ces (elems, parent2) of
           (elems1, parent3) \<Rightarrow> parseChoiceLoop chs elems1 parent3 p) = Inr (els, pa')"
    by (auto simp: parseChoiceLoop.simps Let_def andThen_eq_Inr prepare_parent)
  have "ch \<in> set (ch # chs)" by simp
  from Cons.prems(2)[OF this n] obtain t1 e1 where
    e1: "\<not> t1 \<longrightarrow> e1 = []" and
    all1: "\<forall>pb. parseNestedElements ch pb p = Inr (ces, pushChoice t1 e1 pb)"
    by (elim exE conjE) (rule that)
  have p2: "parseNestedElements ch (?prep pb) p =
              Inr (ces, set_choice (optList (ct_choice pb) @ e1) pb)" for pb
    using all1 pushChoice_prepared[OF e1] by simp
  from n p2[of pa] have parent2: "parent2 = set_choice (optList (ct_choice pa) @ e1) pa" by simp
  let ?elems1 = "elems @ filter hasInlineType ces"
  have f: "fold mergeChoiceElement ces (elems, set_choice (optList (ct_choice pb) @ e1) pb) =
             (?elems1, set_choice (optList (ct_choice pb) @ e1 @ ces) pb)" for pb
    by (simp add: fold_mergeChoiceElement_Some)
  from r parent2 f[of pa] have
    l: "parseChoiceLoop chs ?elems1 (set_choice (optList (ct_choice pa) @ e1 @ ces) pa) p = Inr (els, pa')"
    by simp
  have "\<exists>extra. (chs = [] \<longrightarrow> extra = []) \<and>
           (\<forall>pb. parseChoiceLoop chs ?elems1 pb p = Inr (els, pushChoice (chs \<noteq> []) extra pb))"
  proof (rule Cons.IH[OF l])
    fix c pa els pa'
    assume m: "c \<in> set chs" and q: "parseNestedElements c pa p = Inr (els, pa')"
    from m have "c \<in> set (ch # chs)" by simp
    then show "\<exists>touched extra. (\<not> touched \<longrightarrow> extra = []) \<and>
               (\<forall>pb. parseNestedElements c pb p = Inr (els, pushChoice touched extra pb))"
      using q by (rule Cons.prems(2))
  qed
  then obtain e2 where
    e2: "chs = [] \<longrightarrow> e2 = []" and
    all2: "\<forall>pb. parseChoiceLoop chs ?elems1 pb p = Inr (els, pushChoice (chs \<noteq> []) e2 pb)"
    by (elim exE conjE) (rule that)
  have "parseChoiceLoop (ch # chs) elems pb p =
          Inr (els, pushChoice True (e1 @ ces @ e2) pb)" for pb
  proof -
    have "parseChoiceLoop (ch # chs) elems pb p =
            parseChoiceLoop chs ?elems1 (set_choice (optList (ct_choice pb) @ e1 @ ces) pb) p"
      by (simp add: parseChoiceLoop.simps Let_def prepare_parent p2 f)
    also have "\<dots> = Inr (els, pushChoice (chs \<noteq> []) e2
                              (set_choice (optList (ct_choice pb) @ e1 @ ces) pb))"
      using all2 by simp
    also have "pushChoice (chs \<noteq> []) e2 (set_choice (optList (ct_choice pb) @ e1 @ ces) pb) =
                 set_choice ((optList (ct_choice pb) @ e1 @ ces) @ e2) pb"
      using e2 by (intro pushChoice_prepared) simp
    finally show ?thesis by (simp add: pushChoice_def)
  qed
  then have "(ch # chs = [] \<longrightarrow> e1 @ ces @ e2 = []) \<and>
           (\<forall>pb. parseChoiceLoop (ch # chs) elems pb p =
                    Inr (els, pushChoice (ch # chs \<noteq> []) (e1 @ ces @ e2) pb))"
    by simp
  then show ?case by (rule exI)
qed

lemma parseNestedElements_independent:
  "parseNestedElements cont pa p = Inr (els, pa') \<Longrightarrow>
   \<exists>touched extra. (\<not> touched \<longrightarrow> extra = []) \<and>
     (\<forall>pb. parseNestedElements cont pb p = Inr (els, pushChoice touched extra pb))"
proof (induction "size cont" arbitrary: cont pa els pa' rule: less_induct)
  case less
  from less.prems obtain elementArray elems choiceArray where
    a: "getAsArray cont ''element'' p = Inr elementArray" and
    e: "parseElementLoop elementArray p = Inr elems" and
    c: "getAsArray cont ''choice'' p = Inr choiceArray" and
    l: "parseChoiceLoop choiceArray elems pa p = Inr (els, pa')"
    by (auto simp: parseNestedElements.simps andThen_eq_Inr)
  have sz: "size ch < size cont" if "ch \<in> set choiceArray" for ch
    using getAsArray_size[OF c] size_list_member[OF that] by simp
  have nested: "\<exists>touched extra. (\<not> touched \<longrightarrow> extra = []) \<and>
        (\<forall>pb. parseNestedElements ch pb p = Inr (els, pushChoice touched extra pb))"
    if "ch \<in> set choiceArray" "parseNestedElements ch pa p = Inr (els, pa')"
    for ch pa els pa'
    using sz[OF that(1)] that(2) by (rule less.hyps)
  have "\<exists>extra. (choiceArray = [] \<longrightarrow> extra = []) \<and>
           (\<forall>pb. parseChoiceLoop choiceArray elems pb p =
                    Inr (els, pushChoice (choiceArray \<noteq> []) extra pb))"
  proof (rule parseChoiceLoop_independent[OF _ l])
    show "\<exists>touched extra. (\<not> touched \<longrightarrow> extra = []) \<and>
        (\<forall>pb. parseNestedElements ch pb p = Inr (els, pushChoice touched extra pb))"
      if "ch \<in> set choiceArray" "parseNestedElements ch pa p = Inr (els, pa')"
      for ch pa els pa'
      using that by (rule nested)
  qed
  then obtain extra where
    x: "choiceArray = [] \<longrightarrow> extra = []" and
    all: "\<forall>pb. parseChoiceLoop choiceArray elems pb p =
               Inr (els, pushChoice (choiceArray \<noteq> []) extra pb)"
    by (elim exE conjE) (rule that)
  have "parseNestedElements cont pb p = Inr (els, pushChoice (choiceArray \<noteq> []) extra pb)" for pb
    using a e c all by (simp add: parseNestedElements.simps)
  with x have "(\<not> choiceArray \<noteq> [] \<longrightarrow> extra = []) \<and>
     (\<forall>pb. parseNestedElements cont pb p = Inr (els, pushChoice (choiceArray \<noteq> []) extra pb))"
    by simp
  then show ?case by (intro exI)
qed

lemma pushChoice_grows:
  "\<not> touched \<longrightarrow> extra = [] \<Longrightarrow> choiceGrowsBy extra c0 (pushChoice touched extra c0)"
  by (cases touched) (simp_all add: choiceGrowsBy_def pushChoice_def set_choice_def optList_def)

lemma parseNestedElements_effect:
  assumes "parseNestedElements n c0 p = Inr (parsed, c)" and "truthy n"
  shows "parsed = compositorElements (Some n) p \<and>
         choiceGrowsBy (nestedAlternatives (Some n) p) c0 c"
proof -
  from parseNestedElements_independent[OF assms(1)] obtain touched extra where
    e: "\<not> touched \<longrightarrow> extra = []" and
    all: "\<forall>pb. parseNestedElements n pb p = Inr (parsed, pushChoice touched extra pb)"
    by (elim exE conjE) (rule that)
  from all have b: "parseNestedElements n blankType p = Inr (parsed, pushChoice touched extra blankType)"
    by simp
  have x: "optList (ct_choice (pushChoice touched extra blankType)) = extra"
    using e by (cases touched)
      (simp_all add: pushChoice_def blankType_def optList_def set_choice_def)
  from b x assms(2) have 1: "parsed = compositorElements (Some n) p"
    and 2: "nestedAlternatives (Some n) p = extra"
    by (simp_all add: compositorElements_def nestedAlternatives_def)
  from all assms(1) have c: "c = pushChoice touched extra c0" by simp
  from pushChoice_grows[OF e, of c0] c 2 have "choiceGrowsBy (nestedAlternatives (Some n) p) c0 c"
    by simp
  with 1 show ?thesis by simp
qed

lemma absent_empty:
  "\<not> present x \<Longrightarrow> compositorElements x p = [] \<and> nestedAlternatives x p = []"
  by (auto simp: present_def compositorElements_def nestedAlternatives_def split: option.splits)

lemma quiet_empty:
  assumes "quiet x p"
  shows "nestedAlternatives x p = []"
proof (cases "present x")
  case False
  then show ?thesis by (simp add: absent_empty)
next
  case True
  then obtain n where x: "x = Some n" and t: "truthy n"
    by (auto simp: present_def split: option.splits)
  with assms have q: "getAsArray n ''choice'' p = Inr []" by (simp add: quiet_def)
  show ?thesis
  proof (cases "parseNestedElements n blankType p")
    case (Inl e)
    with x t show ?thesis by (simp add: nestedAlternatives_def)
  next
    case (Inr r)
    obtain parsed c where r: "r = (parsed, c)" by (cases r)
    from parseNestedElements_quiet[OF q Inr[unfolded r]] have "c = blankType" .
    with Inr r x t show ?thesis
      by (simp add: nestedAlternatives_def blankType_def optList_def)
  qed
qed

text \<open>A stage of \<open>parseComplexType\<close> for \<open>sequence\<close>, \<open>choice\<close> or \<open>all\<close>.\<close>

lemma compositorStage_effect:
  assumes "compositorStage setter x c0 p = Inr c1"
  shows "if present x
         then \<exists>cc. choiceGrowsBy (nestedAlternatives x p) c0 cc \<and>
                c1 = push_content (compositorElements x p) (setter (compositorElements x p) cc)
         else c1 = c0"
proof (cases "present x")
  case False
  with assms show ?thesis
    by (auto simp: compositorStage_def present_def split: option.splits if_splits)
next
  case True
  then obtain n where x: "x = Some n" and t: "truthy n"
    by (auto simp: present_def split: option.splits)
  with assms obtain parsed cc where
    n: "parseNestedElements n c0 p = Inr (parsed, cc)" and
    c1: "c1 = push_content parsed (setter parsed cc)"
    by (auto simp: compositorStage_def andThen_eq_Inr)
  from parseNestedElements_effect[OF n t] x c1 True show ?thesis by auto
qed

lemma withoutChoice_empty:
  assumes "compositorWithoutChoice n key p"
  shows "nestedAlternatives (child n key p) p = []"
proof (cases "getTypeValue n key p")
  case (Inl e)
  then show ?thesis by (simp add: child_def nestedAlternatives_def)
next
  case (Inr x)
  with assms have "quiet x p" by (simp add: compositorWithoutChoice_def)
  then have "nestedAlternatives x p = []" by (rule quiet_empty)
  with Inr show ?thesis by (simp add: child_def)
qed

lemma extensionStage_effect:
  assumes "extensionStage ex c3 p = Inr (Some c)"
  shows "ct_sequence c = ct_sequence c3 \<and> ct_all c = ct_all c3 \<and>
         ct_content c = ct_content c3 @ compositorElements (child ex ''sequence'' p) p \<and>
         extensionSequence c = compositorElements (child ex ''sequence'' p) p \<and>
         optList (ct_choice c) =
           optList (ct_choice c3) @ nestedAlternatives (child ex ''sequence'' p) p"
proof -
  let ?base = "if truthyS (attr ex ''base'')
               then Some (stripNamespace (the (attr ex ''base''))) else None"
  from assms obtain extAttributes extSequence c4 where
    s: "getTypeValue ex ''sequence'' p = Inr extSequence" and
    c: "c = push_attributes extAttributes c4" and
    st: "(case extSequence of
            Some es \<Rightarrow>
              (if truthy es then
                 andThen (parseNestedElements es c3 p) (\<lambda>(parsed, c).
                   Inr (push_content parsed
                     (set_extension (XsdExtension ?base (Some parsed) extAttributes) c)))
               else Inr (set_extension (XsdExtension ?base None extAttributes) c3))
          | None \<Rightarrow> Inr (set_extension (XsdExtension ?base None extAttributes) c3)) = Inr c4"
    by (auto simp: extensionStage_def andThen_eq_Inr)
  from s have ch: "child ex ''sequence'' p = extSequence" by (simp add: child_def)
  show ?thesis
  proof (cases "present extSequence")
    case False
    with st have "c4 = set_extension (XsdExtension ?base None extAttributes) c3"
      by (auto simp: present_def split: option.splits if_splits)
    with c False show ?thesis
      unfolding ch
      by (simp add: absent_empty push_attributes_def set_extension_def
            extensionSequence_def optList_def)
  next
    case True
    then obtain es where es: "extSequence = Some es" and t: "truthy es"
      by (auto simp: present_def split: option.splits)
    with st obtain parsed cc where
      n: "parseNestedElements es c3 p = Inr (parsed, cc)" and
      c4: "c4 = push_content parsed
                 (set_extension (XsdExtension ?base (Some parsed) extAttributes) cc)"
      by (auto simp: andThen_eq_Inr)
    from parseNestedElements_effect[OF n t] es have
      "parsed = compositorElements extSequence p"
      "choiceGrowsBy (nestedAlternatives extSequence p) c3 cc"
      by simp_all
    with c c4 show ?thesis
      unfolding ch
      by (simp add: choiceGrowsBy_def push_attributes_def push_content_def set_extension_def
            extensionSequence_def optList_def)
  qed
qed

text \<open>
  C2 (as stated) fails: for \<open>NestedChoiceType\<close>, whose sequence holds a nested choice,
  \<open>content\<close> is \<open>field1, field3\<close>, while \<open>sequence\<close> followed by \<open>choice\<close> is
  \<open>field1, field3, field2, field3\<close>.
\<close>

theorem content_differs_from_concatenation:
  "map_sum id (map_option (\<lambda>c. (map el_name (ct_content c), map el_name (concatenation c))))
     (parseComplexType nestedChoiceType (Some ''xs'') (Some ''NestedChoiceType'')) =
   Inr (Some ([Some ''field1'', Some ''field3''],
              [Some ''field1'', Some ''field3'', Some ''field2'', Some ''field3'']))"
  by code_simp

text \<open>
  C2 (amended).  For every complex type \<open>parseComplexType\<close> returns, \<open>sequence\<close>,
  \<open>all\<close> and \<open>extension.sequence\<close> are what \<open>parseNestedElements\<close> returns for the
  child of that name (for the sequence of the extension), and \<open>content\<close> is the
  concatenation, in this order whatever the order in the markup, of \<open>sequence\<close>, what
  \<open>parseNestedElements\<close> returns for the type's own \<open>choice\<close> child (nothing without
  such a child), \<open>all\<close> and \<open>extension.sequence\<close>.  The field \<open>choice\<close> is: with a
  \<open>choice\<close> child, what \<open>parseNestedElements\<close> returns for it, which replaces the
  alternatives pushed before; without one, the alternatives of the choices nested in
  the sequence; in both cases followed by the alternatives of the choices nested in
  \<open>all\<close> and then in the sequence of the extension.  When no choice is nested in the
  sequence, in \<open>all\<close> or in the sequence of the extension, \<open>content\<close> is \<open>sequence\<close>,
  \<open>choice\<close>, \<open>all\<close>, \<open>extension.sequence\<close> in that fixed order.
\<close>

theorem content_is_concatenation:
  assumes "parseComplexType ct p name = Inr (Some c)"
  shows "optList (ct_sequence c) = compositorElements (child ct ''sequence'' p) p \<and>
         optList (ct_all c) = compositorElements (child ct ''all'' p) p \<and>
         extensionSequence c = compositorElements (extensionSequenceNode ct p) p \<and>
         ct_content c =
           optList (ct_sequence c) @ compositorElements (child ct ''choice'' p) p @
           optList (ct_all c) @ extensionSequence c \<and>
         optList (ct_choice c) =
           (if present (child ct ''choice'' p)
            then compositorElements (child ct ''choice'' p) p
            else nestedAlternatives (child ct ''sequence'' p) p) @
           nestedAlternatives (child ct ''all'' p) p @
           nestedAlternatives (extensionSequenceNode ct p) p \<and>
         (noNestedChoice ct p \<longrightarrow> ct_content c = concatenation c)"
proof -
  from assms have t: "truthy ct"
    by (auto simp: parseComplexType_stages split: if_splits)
  with assms obtain attributes sequence c1 choice c2 all c3 complexContent simpleContent where
    S: "getTypeValue ct ''sequence'' p = Inr sequence" and
    S1: "compositorStage set_sequence sequence
           (XsdComplexType name None None None attributes None []) p = Inr c1" and
    C: "getTypeValue ct ''choice'' p = Inr choice" and
    C1: "compositorStage set_choice choice c1 p = Inr c2" and
    A: "getTypeValue ct ''all'' p = Inr all" and
    A1: "compositorStage set_all all c2 p = Inr c3" and
    CC: "getTypeValue ct ''complexContent'' p = Inr complexContent" and
    SC: "getTypeValue ct ''simpleContent'' p = Inr simpleContent" and
    E: "(case (case complexContent of
                 Some cc \<Rightarrow> (if truthy cc then Some cc else simpleContent)
               | None \<Rightarrow> simpleContent) of
           None \<Rightarrow> Inr (Some c3)
         | Some cont \<Rightarrow>
             (if \<not> truthy cont then Inr (Some c3)
              else
                andThen (getTypeValue cont ''extension'' p) (\<lambda>ext.
                  case ext of
                    None \<Rightarrow> Inr (Some c3)
                  | Some ex \<Rightarrow>
                      (if \<not> truthy ex then Inr (Some c3)
                       else extensionStage ex c3 p)))) = Inr (Some c)"
    by (auto simp: parseComplexType_stages andThen_eq_Inr)
  let ?c0 = "XsdComplexType name None None None attributes None []"
  define Es where "Es = compositorElements sequence p"
  define Ns where "Ns = nestedAlternatives sequence p"
  define Ec where "Ec = compositorElements choice p"
  define Ea where "Ea = compositorElements all p"
  define Na where "Na = nestedAlternatives all p"
  define Ee where "Ee = compositorElements (extensionSequenceNode ct p) p"
  define Ne where "Ne = nestedAlternatives (extensionSequenceNode ct p) p"
  have children: "child ct ''sequence'' p = sequence" "child ct ''choice'' p = choice"
    "child ct ''all'' p = all"
    using S C A by (simp_all add: child_def)
  \<comment> \<open>the sequence\<close>
  have f1: "optList (ct_sequence c1) = Es \<and> optList (ct_choice c1) = Ns \<and> ct_all c1 = None \<and>
            ct_extension c1 = None \<and> ct_content c1 = Es"
  proof (cases "present sequence")
    case False
    with compositorStage_effect[OF S1] have "c1 = ?c0" by simp
    with False show ?thesis by (simp add: Es_def Ns_def absent_empty optList_def)
  next
    case True
    with compositorStage_effect[OF S1] obtain cc where
      "choiceGrowsBy Ns ?c0 cc" "c1 = push_content Es (set_sequence Es cc)"
      unfolding Es_def Ns_def by auto
    then show ?thesis
      by (simp add: choiceGrowsBy_def push_content_def set_sequence_def optList_def)
  qed
  \<comment> \<open>the choice\<close>
  have f2: "optList (ct_sequence c2) = Es \<and>
            optList (ct_choice c2) = (if present choice then Ec else Ns) \<and> ct_all c2 = None \<and>
            ct_extension c2 = None \<and> ct_content c2 = Es @ Ec"
  proof (cases "present choice")
    case False
    with compositorStage_effect[OF C1] have "c2 = c1" by simp
    with False f1 show ?thesis by (simp add: Ec_def absent_empty)
  next
    case True
    with compositorStage_effect[OF C1] obtain cc where
      "choiceGrowsBy (nestedAlternatives choice p) c1 cc" "c2 = push_content Ec (set_choice Ec cc)"
      unfolding Ec_def by auto
    with True f1 show ?thesis
      by (simp add: choiceGrowsBy_def push_content_def set_choice_def optList_def)
  qed
  \<comment> \<open>all\<close>
  have f3: "optList (ct_sequence c3) = Es \<and>
            optList (ct_choice c3) = (if present choice then Ec else Ns) @ Na \<and>
            optList (ct_all c3) = Ea \<and> ct_extension c3 = None \<and> ct_content c3 = Es @ Ec @ Ea"
  proof (cases "present all")
    case False
    with compositorStage_effect[OF A1] have "c3 = c2" by simp
    with False f2 show ?thesis by (simp add: Ea_def Na_def absent_empty optList_def)
  next
    case True
    with compositorStage_effect[OF A1] obtain cc where
      "choiceGrowsBy Na c2 cc" "c3 = push_content Ea (set_all Ea cc)"
      unfolding Ea_def Na_def by auto
    with f2 show ?thesis
      by (simp add: choiceGrowsBy_def push_content_def set_all_def optList_def)
  qed
  \<comment> \<open>the extension\<close>
  define cont where "cont = (case complexContent of
                               Some cc \<Rightarrow> (if truthy cc then Some cc else simpleContent)
                             | None \<Rightarrow> simpleContent)"
  have en: "extensionNode ct p =
              (case cont of
                 Some cn \<Rightarrow>
                   (if truthy cn then
                      (case getTypeValue cn ''extension'' p of
                         Inr (Some ex) \<Rightarrow> (if truthy ex then Some ex else None)
                       | _ \<Rightarrow> None)
                    else None)
               | None \<Rightarrow> None)"
    by (simp add: extensionNode_def CC SC cont_def)
  from E have E': "(case cont of
                      None \<Rightarrow> Inr (Some c3)
                    | Some cn \<Rightarrow>
                        (if \<not> truthy cn then Inr (Some c3)
                         else
                           andThen (getTypeValue cn ''extension'' p) (\<lambda>ext.
                             case ext of
                               None \<Rightarrow> Inr (Some c3)
                             | Some ex \<Rightarrow>
                                 (if \<not> truthy ex then Inr (Some c3)
                                  else extensionStage ex c3 p)))) = Inr (Some c)"
    by (simp add: cont_def)
  have "(extensionNode ct p = None \<and> c = c3) \<or>
        (\<exists>ex. extensionNode ct p = Some ex \<and> extensionStage ex c3 p = Inr (Some c))"
  proof (cases cont)
    case None
    with en E' show ?thesis by simp
  next
    case (Some cn)
    show ?thesis
    proof (cases "truthy cn")
      case False
      with Some en E' show ?thesis by simp
    next
      case True
      with Some E' obtain ext where
        g: "getTypeValue cn ''extension'' p = Inr ext" and
        r: "(case ext of
               None \<Rightarrow> Inr (Some c3)
             | Some ex \<Rightarrow> (if \<not> truthy ex then Inr (Some c3) else extensionStage ex c3 p)) =
            Inr (Some c)"
        by (auto simp: andThen_eq_Inr)
      show ?thesis
      proof (cases ext)
        case None
        with Some True en g r show ?thesis by simp
      next
        case ex: (Some ex)
        with Some True en g r show ?thesis by (cases "truthy ex") simp_all
      qed
    qed
  qed
  then have f4: "optList (ct_sequence c) = Es \<and>
            optList (ct_choice c) = (if present choice then Ec else Ns) @ Na @ Ne \<and>
            optList (ct_all c) = Ea \<and> extensionSequence c = Ee \<and>
            ct_content c = Es @ Ec @ Ea @ Ee"
  proof (elim disjE exE conjE)
    assume none: "extensionNode ct p = None" "c = c3"
    with f3 show ?thesis
      by (simp add: Ee_def Ne_def extensionSequenceNode_def compositorElements_def
            nestedAlternatives_def extensionSequence_def)
  next
    fix ex
    assume ext: "extensionNode ct p = Some ex" "extensionStage ex c3 p = Inr (Some c)"
    from extensionStage_effect[OF ext(2)] ext(1) f3 show ?thesis
      by (simp add: Ee_def Ne_def extensionSequenceNode_def)
  qed
  have quiet: "ct_content c = concatenation c" if q: "noNestedChoice ct p"
  proof -
    from q have "Ns = []" "Na = []"
      using withoutChoice_empty[of ct "''sequence''" p] withoutChoice_empty[of ct "''all''" p]
      by (simp_all add: noNestedChoice_def Ns_def Na_def children)
    moreover have "Ne = []"
    proof (cases "extensionNode ct p")
      case None
      then show ?thesis
        by (simp add: Ne_def extensionSequenceNode_def nestedAlternatives_def)
    next
      case (Some ex)
      with q have "compositorWithoutChoice ex ''sequence'' p"
        by (simp add: noNestedChoice_def)
      then have "nestedAlternatives (child ex ''sequence'' p) p = []"
        by (rule withoutChoice_empty)
      with Some show ?thesis by (simp add: Ne_def extensionSequenceNode_def)
    qed
    moreover have "\<not> present choice \<Longrightarrow> Ec = []" by (simp add: Ec_def absent_empty)
    ultimately show ?thesis
      using f4 by (auto simp: concatenation_def)
  qed
  from f4 quiet show ?thesis
    unfolding children Es_def Ns_def Ec_def Ea_def Na_def Ee_def Ne_def by simp
qed

theorem content_is_concatenation_witness:
  "noNestedChoice bothType (Some ''xs'')
   \<and> map_sum id (map_option (\<lambda>c. (map el_name (ct_content c), map el_name (optList (ct_choice c)),
                                   ct_content c = concatenation c)))
       (parseComplexType bothType (Some ''xs'') (Some ''Both'')) =
     Inr (Some ([Some ''a'', Some ''b''], [Some ''b''], True))
   \<and> map_sum id (map_option (\<lambda>c. (map el_name (ct_content c), map el_name (optList (ct_choice c)))))
       (parseComplexType overwrittenType (Some ''xs'') (Some ''Overwritten'')) =
     Inr (Some ([Some ''s1'', Some ''c1''], [Some ''c1'']))
   \<and> present (child overwrittenType ''choice'' (Some ''xs''))
   \<and> map el_name (compositorElements (child overwrittenType ''choice'' (Some ''xs'')) (Some ''xs'')) =
       [Some ''c1'']
   \<and> map el_name (nestedAlternatives (child overwrittenType ''sequence'' (Some ''xs'')) (Some ''xs'')) =
       [Some ''s2'']"
proof -
  define c where "c = the (projr (parseComplexType bothType (Some ''xs'') (Some ''Both'')))"
  define d where "d = the (projr (parseComplexType overwrittenType (Some ''xs'') (Some ''Overwritten'')))"
  have p: "parseComplexType bothType (Some ''xs'') (Some ''Both'') = Inr (Some c)"
    unfolding c_def by code_simp
  have r: "parseComplexType overwrittenType (Some ''xs'') (Some ''Overwritten'') = Inr (Some d)"
    unfolding d_def by code_simp
  have q: "noNestedChoice bothType (Some ''xs'')"
    by code_simp
  have names: "map el_name (ct_content c) = [Some ''a'', Some ''b'']"
    "map el_name (optList (ct_choice c)) = [Some ''b'']"
    unfolding c_def by code_simp+
  have pr: "present (child overwrittenType ''choice'' (Some ''xs''))"
    by code_simp
  have e: "map el_name (compositorElements (child overwrittenType ''choice'' (Some ''xs'')) (Some ''xs'')) =
             [Some ''c1'']"
    "map el_name (compositorElements (child overwrittenType ''sequence'' (Some ''xs'')) (Some ''xs'')) =
             [Some ''s1'']"
    "compositorElements (child overwrittenType ''all'' (Some ''xs'')) (Some ''xs'') = []"
    "compositorElements (extensionSequenceNode overwrittenType (Some ''xs'')) (Some ''xs'') = []"
    "nestedAlternatives (child overwrittenType ''all'' (Some ''xs'')) (Some ''xs'') = []"
    "nestedAlternatives (extensionSequenceNode overwrittenType (Some ''xs'')) (Some ''xs'') = []"
    "map el_name (nestedAlternatives (child overwrittenType ''sequence'' (Some ''xs'')) (Some ''xs'')) =
             [Some ''s2'']"
    by code_simp+
  from content_is_concatenation[OF p] q have "ct_content c = concatenation c"
    by blast
  moreover from content_is_concatenation[OF r] pr e
  have "map el_name (ct_content d) = [Some ''s1'', Some ''c1''] \<and>
        map el_name (optList (ct_choice d)) = [Some ''c1'']"
    by simp
  ultimately show ?thesis
    using names q pr e unfolding p r by simp
qed

subsection \<open>Dependency orderer\<close>

lemma truthyS_nameOf: "truthyS (nm x) \<Longrightarrow> nm x = Some (nameOf nm x) \<and> nameOf nm x \<noteq> []"
  by (cases "nm x") (auto simp: nameOf_def)

lemma grows_refl: "grows nm items s s"
  by (simp add: grows_def)

lemma grows_trans:
  assumes "grows nm items a b" and "grows nm items b c"
  shows "grows nm items a c"
proof -
  from assms(1) obtain new1 w1 where
    v1: "visiting b = visiting a" and r1: "result b = result a @ new1" and
    d1: "visited b = visited a \<union> nameOf nm ` set new1" and i1: "set new1 \<subseteq> set items" and
    t1: "\<forall>y\<in>set new1. truthyS (nm y)" and
    n1: "nameOf nm ` set new1 \<inter> (visited a \<union> visiting a) = {}" and
    u1: "distinct (map (nameOf nm) new1)" and
    w1: "warned b = warned a @ w1" and
    m1: "\<forall>m\<in>set w1. \<exists>y\<in>set items. truthyS (nm y) \<and> m = circularWarning (nameOf nm y)"
    unfolding grows_def by (elim conjE exE) (rule that)
  from assms(2) obtain new2 w2 where
    v2: "visiting c = visiting b" and r2: "result c = result b @ new2" and
    d2: "visited c = visited b \<union> nameOf nm ` set new2" and i2: "set new2 \<subseteq> set items" and
    t2: "\<forall>y\<in>set new2. truthyS (nm y)" and
    n2: "nameOf nm ` set new2 \<inter> (visited b \<union> visiting b) = {}" and
    u2: "distinct (map (nameOf nm) new2)" and
    w2: "warned c = warned b @ w2" and
    m2: "\<forall>m\<in>set w2. \<exists>y\<in>set items. truthyS (nm y) \<and> m = circularWarning (nameOf nm y)"
    unfolding grows_def by (elim conjE exE) (rule that)
  have disj: "nameOf nm ` set new1 \<inter> nameOf nm ` set new2 = {}"
    using n2 d1 by blast
  have a: "result c = result a @ (new1 @ new2)" using r1 r2 by simp
  have b: "visited c = visited a \<union> nameOf nm ` set (new1 @ new2)" using d1 d2 by auto
  have c: "set (new1 @ new2) \<subseteq> set items" using i1 i2 by simp
  have d: "\<forall>y\<in>set (new1 @ new2). truthyS (nm y)" using t1 t2 by auto
  have e: "nameOf nm ` set (new1 @ new2) \<inter> (visited a \<union> visiting a) = {}"
    using n1 n2 d1 v1 by auto
  have f: "distinct (map (nameOf nm) (new1 @ new2))"
    using u1 u2 disj by simp
  have g: "warned c = warned a @ (w1 @ w2)" using w1 w2 by simp
  have h: "\<forall>m\<in>set (w1 @ w2). \<exists>y\<in>set items. truthyS (nm y) \<and> m = circularWarning (nameOf nm y)"
    using m1 m2 by auto
  from v1 v2 a b c d e f g h show ?thesis
    unfolding grows_def by (intro conjI exI[of _ "new1 @ new2"] exI[of _ "w1 @ w2"]) simp_all
qed

lemma visitEach_grows:
  assumes v: "\<And>x s s'. x \<in> set items \<Longrightarrow> v x s = Some (Inr s') \<Longrightarrow> grows nm items s s'"
  shows "visitEach v idx items ds s = Some (Inr s') \<Longrightarrow> grows nm items s s'"
proof (induction ds arbitrary: s)
  case Nil
  then show ?case by (simp add: grows_refl)
next
  case (Cons d ds)
  show ?case
  proof (cases "idx d")
    case None
    with Cons show ?thesis by simp
  next
    case (Some i)
    with Cons.prems obtain sa where
      i: "i < length items" and a: "v (items ! i) s = Some (Inr sa)" and
      r: "visitEach v idx items ds sa = Some (Inr s')"
      by (auto split: if_splits option.splits sum.splits)
    from v[OF _ a] i have "grows nm items s sa" by simp
    with Cons.IH[OF r] show ?thesis by (blast intro: grows_trans)
  qed
qed

lemma visit_grows:
  "x \<in> set items \<Longrightarrow> visit nm deps idx items fuel x s = Some (Inr s') \<Longrightarrow> grows nm items s s'"
proof (induction fuel arbitrary: x s s')
  case 0
  then show ?case by simp
next
  case (Suc fuel)
  show ?case
  proof (cases "truthyS (nm x)")
    case False
    with Suc.prems show ?thesis by (simp add: grows_refl)
  next
    case True
    let ?n = "the (nm x)"
    have n: "nameOf nm x = ?n" by (simp add: nameOf_def)
    show ?thesis
    proof (cases "?n \<in> visited s")
      case True
      with Suc.prems \<open>truthyS (nm x)\<close> show ?thesis by (simp add: grows_refl)
    next
      case nv: False
      show ?thesis
      proof (cases "?n \<in> visiting s")
        case True
        with Suc.prems \<open>truthyS (nm x)\<close> nv
        have "s' = s\<lparr>warned := warned s @ [circularWarning ?n]\<rparr>" by simp
        with Suc.prems(1) \<open>truthyS (nm x)\<close> n show ?thesis
          unfolding grows_def
          by (intro conjI exI[of _ "[]"] exI[of _ "[circularWarning ?n]"]) auto
      next
        case ng: False
        let ?s1 = "s\<lparr>visiting := insert ?n (visiting s)\<rparr>"
        from Suc.prems \<open>truthyS (nm x)\<close> nv ng obtain ds s2 where
          e: "visitEach (visit nm deps idx items fuel) idx items ds ?s1 = Some (Inr s2)" and
          s': "s' = s2\<lparr>visiting := visiting s2 - {?n}, visited := insert ?n (visited s2),
                       result := result s2 @ [x]\<rparr>"
          by (auto simp: Let_def split: sum.splits option.splits)
        have "grows nm items ?s1 s2"
          using visitEach_grows[OF _ e] Suc.IH by blast
        then obtain new w where
          v2: "visiting s2 = insert ?n (visiting s)" and r2: "result s2 = result s @ new" and
          d2: "visited s2 = visited s \<union> nameOf nm ` set new" and i2: "set new \<subseteq> set items" and
          t2: "\<forall>y\<in>set new. truthyS (nm y)" and
          n2: "nameOf nm ` set new \<inter> (visited s \<union> insert ?n (visiting s)) = {}" and
          u2: "distinct (map (nameOf nm) new)" and
          w2: "warned s2 = warned s @ w" and
          m2: "\<forall>m\<in>set w. \<exists>y\<in>set items. truthyS (nm y) \<and> m = circularWarning (nameOf nm y)"
          unfolding grows_def by (elim conjE exE) (rule that; simp)
        have a: "visiting s' = visiting s" using s' v2 ng by auto
        have b: "result s' = result s @ (new @ [x])" using s' r2 by simp
        have c: "visited s' = visited s \<union> nameOf nm ` set (new @ [x])" using s' d2 n by auto
        have d: "set (new @ [x]) \<subseteq> set items" using i2 Suc.prems(1) by simp
        have e': "\<forall>y\<in>set (new @ [x]). truthyS (nm y)" using t2 \<open>truthyS (nm x)\<close> by auto
        have f: "nameOf nm ` set (new @ [x]) \<inter> (visited s \<union> visiting s) = {}"
          using n2 nv ng n by auto
        have g: "distinct (map (nameOf nm) (new @ [x]))"
          using u2 n2 n by auto
        have h: "warned s' = warned s @ w" using s' w2 by simp
        from a b c d e' f g h m2 show ?thesis
          unfolding grows_def by (intro conjI exI[of _ "new @ [x]"] exI[of _ w]) simp_all
      qed
    qed
  qed
qed


lemma visitAll_grows:
  assumes v: "\<And>x s s'. x \<in> set items \<Longrightarrow> v x s = Some (Inr s') \<Longrightarrow> grows nm items s s'"
  shows "set xs \<subseteq> set items \<Longrightarrow> visitAll v xs s = Some (Inr s') \<Longrightarrow> grows nm items s s'"
proof (induction xs arbitrary: s)
  case Nil
  then show ?case by (simp add: grows_refl)
next
  case (Cons x xs)
  from Cons.prems obtain sa where
    a: "v x s = Some (Inr sa)" and r: "visitAll v xs sa = Some (Inr s')"
    by (auto split: option.splits sum.splits)
  from v[OF _ a] Cons.prems(1) have "grows nm items s sa" by simp
  moreover from Cons.IH[OF _ r] Cons.prems(1) have "grows nm items sa s'" by simp
  ultimately show ?case by (blast intro: grows_trans)
qed

lemma grows_visiting: "grows nm items s s' \<Longrightarrow> visiting s' = visiting s"
  by (simp add: grows_def)

lemma grows_visited: "grows nm items s s' \<Longrightarrow> visited s \<subseteq> visited s'"
  unfolding grows_def by (elim conjE exE) simp


subsection \<open>The index of names\<close>

lemma fold_index_sound:
  "fold (\<lambda>(idx, x) m. if truthyS (nm x) then m(the (nm x) \<mapsto> idx) else m) (enumerate k xs) m d = Some i
   \<Longrightarrow> m d = Some i \<or> (k \<le> i \<and> i < k + length xs \<and> nm (xs ! (i - k)) = Some d \<and> d \<noteq> [])"
proof (induction xs arbitrary: k m)
  case Nil
  then show ?case by simp
next
  case (Cons x xs)
  let ?m = "if truthyS (nm x) then m(the (nm x) \<mapsto> k) else m"
  from Cons.prems have
    "fold (\<lambda>(idx, x) m. if truthyS (nm x) then m(the (nm x) \<mapsto> idx) else m) (enumerate (Suc k) xs) ?m d = Some i"
    by simp
  from Cons.IH[OF this] show ?case
  proof
    assume a: "?m d = Some i"
    show ?thesis
    proof (cases "truthyS (nm x) \<and> d = the (nm x)")
      case True
      with a have "i = k" by simp
      moreover from True have "nm x = Some d \<and> d \<noteq> []" by (cases "nm x") auto
      ultimately show ?thesis by simp
    next
      case False
      with a have "m d = Some i" by (auto split: if_splits)
      then show ?thesis by simp
    qed
  next
    assume b: "Suc k \<le> i \<and> i < Suc k + length xs \<and> nm (xs ! (i - Suc k)) = Some d \<and> d \<noteq> []"
    then have "i - k = Suc (i - Suc k)" by arith
    then have "(x # xs) ! (i - k) = xs ! (i - Suc k)" by simp
    with b show ?thesis by simp
  qed
qed

lemma fold_index_dom:
  "d \<in> dom m \<or> (\<exists>x\<in>set xs. truthyS (nm x) \<and> the (nm x) = d)
   \<Longrightarrow> d \<in> dom (fold (\<lambda>(idx, x) m. if truthyS (nm x) then m(the (nm x) \<mapsto> idx) else m) (enumerate k xs) m)"
proof (induction xs arbitrary: k m)
  case Nil
  then show ?case by simp
next
  case (Cons x xs)
  let ?m = "if truthyS (nm x) then m(the (nm x) \<mapsto> k) else m"
  from Cons.prems have "d \<in> dom ?m \<or> (\<exists>x\<in>set xs. truthyS (nm x) \<and> the (nm x) = d)"
    by auto
  from Cons.IH[OF this, of "Suc k"] show ?case by simp
qed

lemma nameToIndex_indexOk: "indexOk nm (nameToIndex nm items) items"
proof (unfold indexOk_def, intro allI impI)
  fix d i
  assume "nameToIndex nm items d = Some i"
  then have "fold (\<lambda>(idx, x) m. if truthyS (nm x) then m(the (nm x) \<mapsto> idx) else m) (enumerate 0 items) Map.empty d = Some i"
    by (simp add: nameToIndex_def)
  from fold_index_sound[OF this]
  show "i < length items \<and> nm (items ! i) = Some d \<and> d \<noteq> []" by simp
qed

lemma nameToIndex_dom:
  "x \<in> set items \<Longrightarrow> truthyS (nm x) \<Longrightarrow> nameOf nm x \<in> dom (nameToIndex nm items)"
  unfolding nameToIndex_def nameOf_def
  by (rule fold_index_dom) blast

lemma nameToIndex_dom_iff:
  "d \<in> dom (nameToIndex nm items) \<longleftrightarrow> d \<noteq> [] \<and> (\<exists>x\<in>set items. nm x = Some d)"
proof
  assume "d \<in> dom (nameToIndex nm items)"
  then obtain i where "nameToIndex nm items d = Some i" by blast
  with nameToIndex_indexOk[of nm items]
  have "i < length items \<and> nm (items ! i) = Some d \<and> d \<noteq> []"
    unfolding indexOk_def by blast
  then show "d \<noteq> [] \<and> (\<exists>x\<in>set items. nm x = Some d)"
    using nth_mem by blast
next
  assume "d \<noteq> [] \<and> (\<exists>x\<in>set items. nm x = Some d)"
  then obtain x where "x \<in> set items" "nm x = Some d" "d \<noteq> []" by blast
  with nameToIndex_dom[of x items nm] show "d \<in> dom (nameToIndex nm items)"
    by (simp add: nameOf_def)
qed

lemma nameToIndex_dom_subset: "dom (nameToIndex nm items) \<subseteq> (\<lambda>x. the (nm x)) ` set items"
proof
  fix d
  assume "d \<in> dom (nameToIndex nm items)"
  then obtain x where x: "x \<in> set items" "nm x = Some d"
    unfolding nameToIndex_dom_iff by blast
  then have "d = the (nm x)" by simp
  with x(1) show "d \<in> (\<lambda>x. the (nm x)) ` set items" by (rule image_eqI[rotated])
qed

lemma nameToIndex_finite: "finite (dom (nameToIndex nm items))"
  using nameToIndex_dom_subset by (rule finite_subset) simp

lemma nameToIndex_card: "card (dom (nameToIndex nm items)) \<le> length items"
proof -
  have "card (dom (nameToIndex nm items)) \<le> card ((\<lambda>x. the (nm x)) ` set items)"
    using nameToIndex_dom_subset by (rule card_mono[rotated]) simp
  also have "\<dots> \<le> card (set items)" by (rule card_image_le) simp
  also have "\<dots> \<le> length items" by (rule card_length)
  finally show ?thesis .
qed

subsection \<open>The visit returns\<close>

lemma visitEach_returns:
  assumes v: "\<And>x s'. x \<in> set items \<Longrightarrow> visiting s' = V \<Longrightarrow> v x s' \<noteq> None"
    and g: "\<And>x s s'. x \<in> set items \<Longrightarrow> v x s = Some (Inr s') \<Longrightarrow> visiting s' = visiting s"
  shows "visiting s = V \<Longrightarrow> visitEach v idx items ds s \<noteq> None"
proof (induction ds arbitrary: s)
  case Nil
  then show ?case by simp
next
  case (Cons d ds)
  show ?case
  proof (cases "idx d")
    case None
    with Cons show ?thesis by simp
  next
    case (Some i)
    show ?thesis
    proof (cases "i < length items")
      case False
      with Some show ?thesis by simp
    next
      case True
      then have m: "items ! i \<in> set items" by simp
      from v[OF m Cons.prems] obtain r where r: "v (items ! i) s = Some r" by blast
      show ?thesis
      proof (cases r)
        case (Inl e)
        with Some True r show ?thesis by simp
      next
        case (Inr sa)
        with g[OF m] r Cons.prems have "visiting sa = V" by simp
        from Cons.IH[OF this] Some True r Inr show ?thesis by simp
      qed
    qed
  qed
qed

lemma visitAll_returns:
  assumes v: "\<And>x s'. x \<in> set items \<Longrightarrow> visiting s' = V \<Longrightarrow> v x s' \<noteq> None"
    and g: "\<And>x s s'. x \<in> set items \<Longrightarrow> v x s = Some (Inr s') \<Longrightarrow> visiting s' = visiting s"
  shows "set xs \<subseteq> set items \<Longrightarrow> visiting s = V \<Longrightarrow> visitAll v xs s \<noteq> None"
proof (induction xs arbitrary: s)
  case Nil
  then show ?case by simp
next
  case (Cons x xs)
  then have m: "x \<in> set items" by simp
  from v[OF m Cons.prems(2)] obtain r where r: "v x s = Some r" by blast
  show ?case
  proof (cases r)
    case (Inl e)
    with r show ?thesis by simp
  next
    case (Inr sa)
    with g[OF m] r Cons.prems have "visiting sa = V" by simp
    from Cons.IH[OF _ this] Cons.prems(1) r Inr show ?thesis by simp
  qed
qed

lemma visit_returns:
  assumes fin: "finite (dom idx)"
    and named: "\<And>x. x \<in> set items \<Longrightarrow> truthyS (nm x) \<Longrightarrow> nameOf nm x \<in> dom idx"
  shows "x \<in> set items \<Longrightarrow> card (dom idx - visiting s) < fuel
         \<Longrightarrow> visit nm deps idx items fuel x s \<noteq> None"
proof (induction fuel arbitrary: x s)
  case 0
  then show ?case by simp
next
  case (Suc fuel)
  show ?case
  proof (cases "truthyS (nm x) \<and> the (nm x) \<notin> visited s \<and> the (nm x) \<notin> visiting s")
    case False
    then show ?thesis by (auto simp: Let_def)
  next
    case True
    let ?n = "the (nm x)"
    let ?s1 = "s\<lparr>visiting := insert ?n (visiting s)\<rparr>"
    from named[OF Suc.prems(1)] True have d: "?n \<in> dom idx" by (simp add: nameOf_def)
    with True have "?n \<in> dom idx - visiting s" by simp
    moreover have "finite (dom idx - visiting s)" using fin by simp
    ultimately have "card ((dom idx - visiting s) - {?n}) < card (dom idx - visiting s)"
      by (intro card_Diff1_less)
    moreover have "dom idx - insert ?n (visiting s) = (dom idx - visiting s) - {?n}" by auto
    ultimately have "card (dom idx - insert ?n (visiting s)) < card (dom idx - visiting s)"
      by simp
    with Suc.prems(2) have c: "card (dom idx - insert ?n (visiting s)) < fuel" by simp
    show ?thesis
    proof (cases "deps x")
      case (Inl e)
      with True show ?thesis by (simp add: Let_def)
    next
      case (Inr ds)
      have "visitEach (visit nm deps idx items fuel) idx items ds ?s1 \<noteq> None"
      proof (rule visitEach_returns[where V = "insert ?n (visiting s)"])
        show "visit nm deps idx items fuel y s' \<noteq> None"
          if "y \<in> set items" "visiting s' = insert ?n (visiting s)" for y s'
          using that c Suc.IH[of y s'] by simp
      next
        show "visiting s' = visiting s"
          if "y \<in> set items" "visit nm deps idx items fuel y s = Some (Inr s')" for y s s'
          using that by (rule grows_visiting[OF visit_grows])
      next
        show "visiting ?s1 = insert ?n (visiting s)" by simp
      qed
      then obtain r where "visitEach (visit nm deps idx items fuel) idx items ds ?s1 = Some r"
        by blast
      with True Inr show ?thesis by (cases r) (simp_all add: Let_def)
    qed
  qed
qed

lemma topologicalSort_returns: "topologicalSort nm deps items \<noteq> None"
proof -
  let ?idx = "nameToIndex nm items"
  let ?s0 = "\<lparr>visited = {}, visiting = {}, result = [], warned = []\<rparr> :: 'a sortState"
  have "visitAll (visit nm deps ?idx items (Suc (length items))) items ?s0 \<noteq> None"
  proof (rule visitAll_returns[where V = "{}" and items = items])
    show "visit nm deps ?idx items (Suc (length items)) y s' \<noteq> None"
      if y: "y \<in> set items" and v: "visiting s' = {}" for y s'
    proof -
      from v have "card (dom ?idx - visiting s') < Suc (length items)"
        using nameToIndex_card[of nm items] by simp
      with y show ?thesis
        by (intro visit_returns nameToIndex_finite nameToIndex_dom)
    qed
  next
    show "visiting s' = visiting s"
      if "y \<in> set items" "visit nm deps ?idx items (Suc (length items)) y s = Some (Inr s')"
      for y s s'
      using that by (rule grows_visiting[OF visit_grows])
  qed simp_all
  then obtain r where "visitAll (visit nm deps ?idx items (Suc (length items))) items ?s0 = Some r"
    by blast
  then show ?thesis
    unfolding topologicalSort_def by (cases r) simp_all
qed

subsection \<open>The visit does not throw when the dependencies are computed\<close>

lemma visitEach_noThrow:
  assumes ok: "indexOk nm idx items"
    and v: "\<And>x s. x \<in> set items \<Longrightarrow> v x s \<noteq> Some (Inl e)"
  shows "visitEach v idx items ds s \<noteq> Some (Inl e)"
proof (induction ds arbitrary: s)
  case Nil
  then show ?case by simp
next
  case (Cons d ds)
  show ?case
  proof (cases "idx d")
    case None
    with Cons show ?thesis by simp
  next
    case (Some i)
    with ok have i: "i < length items" by (simp add: indexOk_def)
    then have m: "items ! i \<in> set items" by simp
    show ?thesis
    proof (cases "v (items ! i) s")
      case None
      with Some i show ?thesis by simp
    next
      case r: (Some r)
      show ?thesis
      proof (cases r)
        case (Inl e')
        with v[OF m, of s] r have "e' \<noteq> e" by auto
        with Some i r Inl show ?thesis by simp
      next
        case (Inr sa)
        with Some i r Cons.IH[of sa] show ?thesis by simp
      qed
    qed
  qed
qed

lemma visitAll_noThrow:
  assumes v: "\<And>x s. x \<in> set items \<Longrightarrow> v x s \<noteq> Some (Inl e)"
  shows "set xs \<subseteq> set items \<Longrightarrow> visitAll v xs s \<noteq> Some (Inl e)"
proof (induction xs arbitrary: s)
  case Nil
  then show ?case by simp
next
  case (Cons x xs)
  then have m: "x \<in> set items" by simp
  show ?case
  proof (cases "v x s")
    case None
    then show ?thesis by simp
  next
    case r: (Some r)
    show ?thesis
    proof (cases r)
      case (Inl e')
      with v[OF m, of s] r have "e' \<noteq> e" by auto
      with r Inl show ?thesis by simp
    next
      case (Inr sa)
      with r Cons.IH[of sa] Cons.prems show ?thesis by simp
    qed
  qed
qed

lemma visit_noThrow:
  assumes ok: "indexOk nm idx items"
    and deps: "\<And>x. x \<in> set items \<Longrightarrow> \<exists>ds. deps x = Inr ds"
  shows "x \<in> set items \<Longrightarrow> visit nm deps idx items fuel x s \<noteq> Some (Inl e)"
proof (induction fuel arbitrary: x s)
  case 0
  then show ?case by simp
next
  case (Suc fuel)
  from deps[OF Suc.prems] obtain ds where ds: "deps x = Inr ds" by blast
  let ?s1 = "s\<lparr>visiting := insert (the (nm x)) (visiting s)\<rparr>"
  have "visitEach (visit nm deps idx items fuel) idx items ds ?s1 \<noteq> Some (Inl e)"
    using ok Suc.IH by (rule visitEach_noThrow)
  with ds show ?case
    by (auto simp: Let_def split: option.splits sum.splits)
qed

lemma topologicalSort_noThrow:
  assumes deps: "\<And>x. x \<in> set items \<Longrightarrow> \<exists>ds. deps x = Inr ds"
  shows "\<exists>out w. topologicalSort nm deps items = Some (Inr (out, w))"
proof -
  let ?v = "visit nm deps (nameToIndex nm items) items (Suc (length items))"
  let ?s0 = "\<lparr>visited = {}, visiting = {}, result = [], warned = []\<rparr> :: 'a sortState"
  have "visitAll ?v items ?s0 \<noteq> Some (Inl e)" for e
  proof (rule visitAll_noThrow[where items = items])
    show "?v x s \<noteq> Some (Inl e)" if "x \<in> set items" for x s
      using nameToIndex_indexOk deps that by (rule visit_noThrow)
    show "set items \<subseteq> set items" by (rule subset_refl)
  qed
  moreover have "topologicalSort nm deps items \<noteq> None"
    by (rule topologicalSort_returns)
  ultimately show ?thesis
    unfolding topologicalSort_def by (auto split: option.splits sum.splits)
qed

subsection \<open>What the sorted array holds\<close>

lemma visit_visited:
  "visit nm deps idx items fuel x s = Some (Inr s') \<Longrightarrow> truthyS (nm x)
   \<Longrightarrow> nameOf nm x \<in> visited s' \<or> nameOf nm x \<in> visiting s"
  by (cases fuel) (auto simp: Let_def nameOf_def split: if_splits option.splits sum.splits)


lemma visitAll_visited:
  assumes g: "\<And>x s s'. x \<in> set items \<Longrightarrow> v x s = Some (Inr s') \<Longrightarrow> grows nm items s s'"
    and vis: "\<And>x s s'. x \<in> set items \<Longrightarrow> v x s = Some (Inr s') \<Longrightarrow> truthyS (nm x)
                \<Longrightarrow> nameOf nm x \<in> visited s' \<or> nameOf nm x \<in> visiting s"
  shows "set xs \<subseteq> set items \<Longrightarrow> visiting s = {} \<Longrightarrow> visitAll v xs s = Some (Inr s')
         \<Longrightarrow> \<forall>x\<in>set xs. truthyS (nm x) \<longrightarrow> nameOf nm x \<in> visited s'"
proof (induction xs arbitrary: s)
  case Nil
  then show ?case by simp
next
  case (Cons x xs)
  from Cons.prems obtain sa where
    a: "v x s = Some (Inr sa)" and r: "visitAll v xs sa = Some (Inr s')"
    by (auto split: option.splits sum.splits)
  from Cons.prems have m: "x \<in> set items" and sub: "set xs \<subseteq> set items" by simp_all
  from g[OF m a] have va: "visiting sa = {}" using Cons.prems(2) by (simp add: grows_visiting)
  from visitAll_grows[of items v nm xs sa s', OF g sub r]
  have "visited sa \<subseteq> visited s'" by (rule grows_visited)
  moreover from vis[OF m a] Cons.prems(2) have "truthyS (nm x) \<longrightarrow> nameOf nm x \<in> visited sa"
    by simp
  moreover note Cons.IH[OF sub va r]
  ultimately show ?case by auto
qed

lemma distinct_map_the: "distinct (map (\<lambda>x. f (g x)) xs) \<Longrightarrow> distinct (map g xs)"
  by (induction xs) auto

lemma sort_grows:
  assumes "visitAll (visit nm deps idx items fuel) items s = Some (Inr s')"
  shows "grows nm items s s'"
proof (rule visitAll_grows[where v = "visit nm deps idx items fuel" and xs = items])
  show "grows nm items s t"
    if "x \<in> set items" "visit nm deps idx items fuel x s = Some (Inr t)" for x s t
    using that by (rule visit_grows)
  show "set items \<subseteq> set items" by (rule subset_refl)
  show "visitAll (visit nm deps idx items fuel) items s = Some (Inr s')" by (rule assms)
qed

lemma sort_visited:
  assumes "visitAll (visit nm deps idx items fuel) items s = Some (Inr s')"
    and "visiting s = {}"
  shows "\<forall>x\<in>set items. truthyS (nm x) \<longrightarrow> nameOf nm x \<in> visited s'"
proof (rule visitAll_visited[where v = "visit nm deps idx items fuel" and xs = items and s = s])
  show "grows nm items s t"
    if "x \<in> set items" "visit nm deps idx items fuel x s = Some (Inr t)" for x s t
    using that by (rule visit_grows)
  show "nameOf nm x \<in> visited t \<or> nameOf nm x \<in> visiting s"
    if "x \<in> set items" "visit nm deps idx items fuel x s = Some (Inr t)" "truthyS (nm x)"
    for x s t
    using that(2,3) by (rule visit_visited)
  show "set items \<subseteq> set items" by (rule subset_refl)
  show "visiting s = {}" by (rule assms(2))
  show "visitAll (visit nm deps idx items fuel) items s = Some (Inr s')" by (rule assms(1))
qed

lemma topologicalSort_grows:
  assumes "topologicalSort nm deps items = Some (Inr (out, w))"
  shows "\<exists>s'. visitAll (visit nm deps (nameToIndex nm items) items (Suc (length items))) items
                 \<lparr>visited = {}, visiting = {}, result = [], warned = []\<rparr> = Some (Inr s')
              \<and> result s' = out \<and> warned s' = w"
  using assms unfolding topologicalSort_def
  by (auto split: option.splits sum.splits)

lemma topologicalSort_sortedNamed:
  assumes "topologicalSort nm deps items = Some (Inr (out, w))"
  shows "sortedNamed nm items out"
proof -
  let ?v = "visit nm deps (nameToIndex nm items) items (Suc (length items))"
  let ?s0 = "\<lparr>visited = {}, visiting = {}, result = [], warned = []\<rparr> :: 'a sortState"
  from topologicalSort_grows[OF assms] obtain s' where
    s': "visitAll ?v items ?s0 = Some (Inr s')" and out: "result s' = out" by blast
  have "grows nm items ?s0 s'"
    using s' by (rule sort_grows)
  then have r: "visited s' = nameOf nm ` set out" "set out \<subseteq> set items"
    "\<forall>y\<in>set out. truthyS (nm y)" "distinct (map (nameOf nm) out)"
    unfolding grows_def using out by auto
  have all: "\<forall>x\<in>set items. truthyS (nm x) \<longrightarrow> nameOf nm x \<in> visited s'"
    using s' by (rule sort_visited) simp
  have "distinct (map nm out)"
    using r(4) unfolding nameOf_def by (rule distinct_map_the)
  moreover have "nm x \<in> nm ` set out" if x: "x \<in> set items" "truthyS (nm x)" for x
  proof -
    from all x r(1) obtain y where y: "y \<in> set out" "nameOf nm x = nameOf nm y" by auto
    with r(3) have "truthyS (nm y)" by simp
    with x(2) y(2) have "nm x = nm y"
      using truthyS_nameOf[of nm x] truthyS_nameOf[of nm y] by simp
    with y(1) show ?thesis by simp
  qed
  ultimately show ?thesis
    unfolding sortedNamed_def using r(2,3) by auto
qed

lemma topologicalSort_warnings:
  assumes "topologicalSort nm deps items = Some (Inr (out, w))"
  shows "\<forall>m\<in>set w. \<exists>y\<in>set items. truthyS (nm y) \<and> m = circularWarning (nameOf nm y)"
proof -
  let ?v = "visit nm deps (nameToIndex nm items) items (Suc (length items))"
  let ?s0 = "\<lparr>visited = {}, visiting = {}, result = [], warned = []\<rparr> :: 'a sortState"
  from topologicalSort_grows[OF assms] obtain s' where
    s': "visitAll ?v items ?s0 = Some (Inr s')" and w: "warned s' = w" by blast
  have "grows nm items ?s0 s'"
    using s' by (rule sort_grows)
  then show ?thesis
    unfolding grows_def using w by auto
qed

subsection \<open>Dependencies come first\<close>







subsection \<open>The two sorts\<close>




lemma visit_cycle:
  assumes "truthyS (nm x)" "nameOf nm x \<notin> visited s" "nameOf nm x \<in> visiting s"
  shows "visit nm deps idx items (Suc fuel) x s =
           Some (Inr (s\<lparr>warned := warned s @ [circularWarning (nameOf nm x)]\<rparr>))"
  using assms by (simp add: nameOf_def)

text \<open>
  C9 (as first stated): the document \<open>anonymousDocument\<close> declares a simple type
  without a name and then the simple type \<open>Code\<close>; \<open>topologicalSortSimpleTypes\<close>
  returns the array that holds only \<open>Code\<close>.  The type without a name is not left in
  place: it is not in the output.
\<close>

theorem anonymous_type_is_dropped:
  "map st_name (simpleTypes (parsedSchema anonymousDocument)) = [None, Some ''Code''] \<and>
   sortedNames st_name (topologicalSortSimpleTypes (parsedSchema anonymousDocument)) =
     Some (Inr ([Some ''Code''], []))"
  by code_simp

text \<open>
  C9 (amended): a visit of a named type that is being visited and is not yet visited
  changes nothing but the warnings, to which it adds the cycle warning with the name of
  the type.  \<open>topologicalSortSimpleTypes\<close> always returns an array, and
  \<open>topologicalSortComplexTypes\<close> always returns: an array when the mapper throws for no
  complex type of the schema, and never without end.  The array returned holds types
  with a name only, no name twice and every name of the input: a type without a name is
  dropped.  Every warning is the cycle warning for the name of a type of the input.
\<close>

theorem cycle_warns_and_only_named_types_are_sorted:
  "(truthyS (nm x) \<and> nameOf nm x \<notin> visited s \<and> nameOf nm x \<in> visiting s \<longrightarrow>
      visit nm deps idx items (Suc fuel) x s =
        Some (Inr (s\<lparr>warned := warned s @ [circularWarning (nameOf nm x)]\<rparr>)))
   \<and> (\<exists>out w. topologicalSortSimpleTypes schema = Some (Inr (out, w)) \<and>
                sortedNamed st_name (simpleTypes schema) out \<and>
                cycleWarnings st_name (simpleTypes schema) w)
   \<and> topologicalSortComplexTypes ext schema naming \<noteq> None
   \<and> ((\<forall>c\<in>set (complexTypes schema). \<exists>ds. dependencies ext naming schema c = Inr ds) \<longrightarrow>
        (\<exists>out w. topologicalSortComplexTypes ext schema naming = Some (Inr (out, w))))
   \<and> (\<forall>out w. topologicalSortComplexTypes ext schema naming = Some (Inr (out, w)) \<longrightarrow>
        sortedNamed ct_name (complexTypes schema) out \<and>
        cycleWarnings ct_name (complexTypes schema) w)"
proof (intro conjI impI allI)
  assume "truthyS (nm x) \<and> nameOf nm x \<notin> visited s \<and> nameOf nm x \<in> visiting s"
  then show "visit nm deps idx items (Suc fuel) x s =
               Some (Inr (s\<lparr>warned := warned s @ [circularWarning (nameOf nm x)]\<rparr>))"
    by (intro visit_cycle) simp_all
next
  have "\<exists>out w. topologicalSort st_name baseDependency (simpleTypes schema) = Some (Inr (out, w))"
    by (rule topologicalSort_noThrow) (simp add: baseDependency_def Let_def)
  then obtain out w where
    r: "topologicalSort st_name baseDependency (simpleTypes schema) = Some (Inr (out, w))"
    by blast
  have "sortedNamed st_name (simpleTypes schema) out"
    using r by (rule topologicalSort_sortedNamed)
  moreover have "cycleWarnings st_name (simpleTypes schema) w"
    unfolding cycleWarnings_def using r by (rule topologicalSort_warnings)
  ultimately show "\<exists>out w. topologicalSortSimpleTypes schema = Some (Inr (out, w)) \<and>
                sortedNamed st_name (simpleTypes schema) out \<and>
                cycleWarnings st_name (simpleTypes schema) w"
    unfolding topologicalSortSimpleTypes_def using r by blast
next
  show "topologicalSortComplexTypes ext schema naming \<noteq> None"
    unfolding topologicalSortComplexTypes_def by (rule topologicalSort_returns)
next
  assume "\<forall>c\<in>set (complexTypes schema). \<exists>ds. dependencies ext naming schema c = Inr ds"
  then show "\<exists>out w. topologicalSortComplexTypes ext schema naming = Some (Inr (out, w))"
    unfolding topologicalSortComplexTypes_def by (intro topologicalSort_noThrow) blast
next
  fix out w
  assume "topologicalSortComplexTypes ext schema naming = Some (Inr (out, w))"
  then have r: "topologicalSort ct_name (dependencies ext naming schema) (complexTypes schema) =
                  Some (Inr (out, w))"
    by (simp add: topologicalSortComplexTypes_def)
  show "sortedNamed ct_name (complexTypes schema) out"
    using r by (rule topologicalSort_sortedNamed)
  show "cycleWarnings ct_name (complexTypes schema) w"
    unfolding cycleWarnings_def using r by (rule topologicalSort_warnings)
qed

theorem cycle_warns_and_only_named_types_are_sorted_witness:
  "visit st_name baseDependency Map.empty [] (Suc 0) typeA visitingA =
     Some (Inr (visitingA\<lparr>warned := [circularWarning ''A'']\<rparr>))
   \<and> sortedNames st_name (topologicalSortSimpleTypes (parsedSchema fieldReferenceDocument)) =
       Some (Inr ([Some ''B'', Some ''A''], [circularWarning ''A'']))
   \<and> sortedNames ct_name
       (topologicalSortComplexTypes sampleExternals (parsedSchema fieldReferenceDocument) Original) =
       Some (Inr ([Some ''Base'', Some ''Derived''], []))
   \<and> sortedNamed ct_name (complexTypes (parsedSchema fieldReferenceDocument))
       (fst (projr (the (topologicalSortComplexTypes sampleExternals
                           (parsedSchema fieldReferenceDocument) Original))))"
proof -
  define S where "S = parsedSchema fieldReferenceDocument"
  define out where "out = fst (projr (the (topologicalSortComplexTypes sampleExternals S Original)))"
  note t = cycle_warns_and_only_named_types_are_sorted
             [where nm = st_name and x = typeA and s = visitingA and deps = baseDependency
                and idx = Map.empty and items = "[]" and fuel = 0 and schema = S
                and ext = sampleExternals and naming = Original]
  have h1: "truthyS (st_name typeA) \<and> nameOf st_name typeA \<notin> visited visitingA \<and>
            nameOf st_name typeA \<in> visiting visitingA"
    by code_simp
  have n: "nameOf st_name typeA = ''A''" by code_simp
  have w0: "warned visitingA = []" by (simp add: visitingA_def)
  have m: "map (dependencies sampleExternals Original S) (complexTypes S) = [Inr [''Base''], Inr []]"
    unfolding S_def by code_simp
  have h2: "\<forall>c\<in>set (complexTypes S). \<exists>ds. dependencies sampleExternals Original S c = Inr ds"
  proof
    fix c
    assume "c \<in> set (complexTypes S)"
    then have "dependencies sampleExternals Original S c
                 \<in> set (map (dependencies sampleExternals Original S) (complexTypes S))"
      by simp
    then have "dependencies sampleExternals Original S c \<in> {Inr [''Base''], Inr []}"
      unfolding m by simp
    then show "\<exists>ds. dependencies sampleExternals Original S c = Inr ds"
      by auto
  qed
  have h3: "topologicalSortComplexTypes sampleExternals S Original = Some (Inr (out, []))"
    unfolding out_def S_def by code_simp
  have a: "visit st_name baseDependency Map.empty [] (Suc 0) typeA visitingA =
             Some (Inr (visitingA\<lparr>warned := [circularWarning ''A'']\<rparr>))"
    using t h1 n w0 by simp
  have b: "sortedNames st_name (topologicalSortSimpleTypes S) =
             Some (Inr ([Some ''B'', Some ''A''], [circularWarning ''A'']))"
    unfolding S_def by code_simp
  have c: "sortedNames ct_name (topologicalSortComplexTypes sampleExternals S Original) =
             Some (Inr ([Some ''Base'', Some ''Derived''], []))"
    unfolding S_def by code_simp
  from t h2 have "\<exists>out w. topologicalSortComplexTypes sampleExternals S Original = Some (Inr (out, w))"
    by blast
  from t h3 have d: "sortedNamed ct_name (complexTypes S) out"
    by blast
  from a b c d show ?thesis
    unfolding out_def S_def by simp
qed


subsection \<open>The scan finds a schema name that stands alone\<close>














subsection \<open>A field of a custom type writes the schema name of the type\<close>

















end
